theory Spec2Isabelle
  imports Complex_Main "HOL-Library.AList" "HOL-Library.Sublist"
begin

section \<open>Edge probing: evaluation metrics, training loop, span alignment, layer sweep\<close>

text \<open>
  A shallow embedding of \<^verbatim>\<open>src/probing-tasks/replicate/edge_probing.py\<close>.
  Python floats are modelled as \<^typ>\<open>real\<close> (exact arithmetic, no NaN, no rounding);
  Python ints as \<^typ>\<open>int\<close>; exceptions as values of \<open>py_error\<close> on the left of a sum.
  The transformer model and the loss function are black boxes and enter as parameters.
\<close>

datatype py_error =
    ZeroDivisionError
  | UnboundLocalError
  | IndexError
  | KeyError
  | RuntimeError

subsection \<open>Tester: \<^verbatim>\<open>test_single_span\<close>, \<^verbatim>\<open>test_two_span\<close>\<close>

text \<open>
  \<^verbatim>\<open>torch.argmax(row)\<close>: the index of the first maximal entry. The class dimension of
  a model output and of a one-hot label has at least one entry.
\<close>

fun argmax :: "real list \<Rightarrow> nat" where
  "argmax [] = 0"
| "argmax [x] = 0"
| "argmax (x # y # ys) = (let j = argmax (y # ys) in if (y # ys) ! j \<le> x then 0 else Suc j)"

text \<open>
  A batch after the forward pass: one pair (output row, one-hot target row) per sample, so
  that \<^verbatim>\<open>output\<close> and \<^verbatim>\<open>targets\<close> have the same batch dimension.
\<close>

type_synonym scored_batch = "(real list \<times> real list) list"

definition preds_of :: "scored_batch \<Rightarrow> int list" where
  "preds_of b = map (\<lambda>(out, tgt). int (argmax out)) b"

definition targets_max_of :: "scored_batch \<Rightarrow> int list" where
  "targets_max_of b = map (\<lambda>(out, tgt). int (argmax tgt)) b"

text \<open>\<^verbatim>\<open>torch.sum(preds == id).item()\<close>\<close>

definition sum_eq :: "int list \<Rightarrow> int \<Rightarrow> real" where
  "sum_eq xs v = real (length (filter (\<lambda>x. x = v) xs))"

text \<open>\<^verbatim>\<open>torch.sum((preds == id) * (targets_max == id)).item()\<close>\<close>

definition sum_both :: "int list \<Rightarrow> int list \<Rightarrow> int \<Rightarrow> real" where
  "sum_both ps ts v = real (length (filter (\<lambda>(p, t). p = v \<and> t = v) (zip ps ts)))"

text \<open>\<^verbatim>\<open>(preds == targets_max).float().mean().item()\<close>\<close>

definition batch_accuracy :: "int list \<Rightarrow> int list \<Rightarrow> real" where
  "batch_accuracy ps ts =
     real (length (filter (\<lambda>(p, t). p = t) (zip ps ts))) / real (length ps)"

text \<open>
  The accumulators of the test pass. The three dictionaries are keyed by the label ids and
  are only ever read and written at keys of \<^verbatim>\<open>ids\<close>; they are total functions that
  start at 0.
\<close>

record test_acc =
  preds_sum :: "int \<Rightarrow> real"
  targets_sum :: "int \<Rightarrow> real"
  preds_correct_sum :: "int \<Rightarrow> real"
  loss :: real
  accuracy :: real

definition test_acc_init :: test_acc where
  "test_acc_init = \<lparr> preds_sum = (\<lambda>_. 0), targets_sum = (\<lambda>_. 0),
      preds_correct_sum = (\<lambda>_. 0), loss = 0, accuracy = 0 \<rparr>"

text \<open>The inner loop \<^verbatim>\<open>for id in ids\<close> (lines 311-314).\<close>

fun count_ids :: "int list \<Rightarrow> int list \<Rightarrow> int list \<Rightarrow> test_acc \<Rightarrow> test_acc" where
  "count_ids ps ts [] a = a"
| "count_ids ps ts (i # ids) a =
     count_ids ps ts ids
       (a\<lparr> preds_sum := (preds_sum a)(i := preds_sum a i + sum_eq ps i),
           targets_sum := (targets_sum a)(i := targets_sum a i + sum_eq ts i),
           preds_correct_sum := (preds_correct_sum a)(i := preds_correct_sum a i + sum_both ps ts i) \<rparr>)"

text \<open>One iteration of the loop over the test batches (lines 305-315).\<close>

definition test_batch :: "(scored_batch \<Rightarrow> real) \<Rightarrow> int list \<Rightarrow> scored_batch \<Rightarrow> test_acc \<Rightarrow> test_acc" where
  "test_batch loss_func ids b a =
     (let a1 = a\<lparr> loss := loss a + loss_func b \<rparr>;
          preds = preds_of b;
          targets_max = targets_max_of b;
          a2 = count_ids preds targets_max ids a1
      in a2\<lparr> accuracy := accuracy a2 + batch_accuracy preds targets_max \<rparr>)"

fun test_loop :: "(scored_batch \<Rightarrow> real) \<Rightarrow> int list \<Rightarrow> scored_batch list \<Rightarrow> test_acc \<Rightarrow> test_acc" where
  "test_loop loss_func ids [] a = a"
| "test_loop loss_func ids (b # bs) a = test_loop loss_func ids bs (test_batch loss_func ids b a)"

text \<open>Lines 316-317.\<close>

definition precision :: "test_acc \<Rightarrow> int list \<Rightarrow> real list" where
  "precision a ids =
     map (\<lambda>i. if preds_sum a i \<noteq> 0 then preds_correct_sum a i / preds_sum a i else 0) ids"

definition recall :: "test_acc \<Rightarrow> int list \<Rightarrow> real list" where
  "recall a ids =
     map (\<lambda>i. if targets_sum a i \<noteq> 0 then preds_correct_sum a i / targets_sum a i else 0) ids"

text \<open>
  Lines 318-321. Each division raises \<^verbatim>\<open>ZeroDivisionError\<close> on a zero divisor, in the
  order in which the source evaluates them; \<open>nb\<close> is \<^verbatim>\<open>len(loop)\<close>.
\<close>

definition test_metrics :: "test_acc \<Rightarrow> int list \<Rightarrow> nat \<Rightarrow> py_error + (real \<times> real \<times> real)" where
  "test_metrics a ids nb =
     (if length ids = 0 then Inl ZeroDivisionError
      else
        let macro_precision = sum_list (precision a ids) / real (length ids);
            macro_recall = sum_list (recall a ids) / real (length ids)
        in if macro_precision + macro_recall = 0 then Inl ZeroDivisionError
           else
             let macro_f1_score =
                   2 * (macro_precision * macro_recall) / (macro_precision + macro_recall)
             in if nb = 0 then Inl ZeroDivisionError
                else Inr (loss a / real nb, accuracy a / real nb, macro_f1_score))"

definition test_pass :: "(scored_batch \<Rightarrow> real) \<Rightarrow> int list \<Rightarrow> scored_batch list \<Rightarrow> py_error + (real \<times> real \<times> real)" where
  "test_pass loss_func ids bs =
     test_metrics (test_loop loss_func ids bs test_acc_init) ids (length bs)"

text \<open>
  The two testers differ in the forward pass only: a sample of the single-span test set is
  (input ids, span1 mask, one-hot target), a sample of the two-span test set has a second
  mask. \<open>model\<close> maps the inputs of one sample to its output row.
\<close>

definition forward_single ::
  "('x \<Rightarrow> 's \<Rightarrow> real list) \<Rightarrow> ('x \<times> 's \<times> real list) list list \<Rightarrow> scored_batch list" where
  "forward_single model test_data =
     map (map (\<lambda>(xb, span1, target). (model xb span1, target))) test_data"

definition forward_two ::
  "('x \<Rightarrow> 's \<Rightarrow> 's \<Rightarrow> real list) \<Rightarrow> ('x \<times> 's \<times> 's \<times> real list) list list \<Rightarrow> scored_batch list" where
  "forward_two model test_data =
     map (map (\<lambda>(xb, span1, span2, target). (model xb span1 span2, target))) test_data"

definition test_single_span ::
  "('x \<times> 's \<times> real list) list list \<Rightarrow> ('x \<Rightarrow> 's \<Rightarrow> real list) \<Rightarrow> (scored_batch \<Rightarrow> real) \<Rightarrow> int list
     \<Rightarrow> py_error + (real \<times> real \<times> real)" where
  "test_single_span test_data model loss_func ids =
     test_pass loss_func ids (forward_single model test_data)"

definition test_two_span ::
  "('x \<times> 's \<times> 's \<times> real list) list list \<Rightarrow> ('x \<Rightarrow> 's \<Rightarrow> 's \<Rightarrow> real list) \<Rightarrow> (scored_batch \<Rightarrow> real) \<Rightarrow> int list
     \<Rightarrow> py_error + (real \<times> real \<times> real)" where
  "test_two_span test_data model loss_func ids =
     test_pass loss_func ids (forward_two model test_data)"

text \<open>
  The metrics as the specification words them, over the predictions and targets of the whole
  test set: per class, correct/predicted and correct/actual (0 on a zero count); macro values
  as unweighted means over the label ids; F1 as \<open>2PR/(P+R)\<close>.
\<close>

definition spec_precision :: "int list \<Rightarrow> int list \<Rightarrow> int \<Rightarrow> real" where
  "spec_precision ps ts i = (if sum_eq ps i = 0 then 0 else sum_both ps ts i / sum_eq ps i)"

definition spec_recall :: "int list \<Rightarrow> int list \<Rightarrow> int \<Rightarrow> real" where
  "spec_recall ps ts i = (if sum_eq ts i = 0 then 0 else sum_both ps ts i / sum_eq ts i)"

definition spec_macro :: "(int \<Rightarrow> real) \<Rightarrow> int list \<Rightarrow> real" where
  "spec_macro f ids = (\<Sum>i\<leftarrow>ids. f i) / real (length ids)"

definition all_preds :: "scored_batch list \<Rightarrow> int list" where
  "all_preds bs = concat (map preds_of bs)"

definition all_targets :: "scored_batch list \<Rightarrow> int list" where
  "all_targets bs = concat (map targets_max_of bs)"

text \<open>
  Test sets used as concrete inputs below. In \<open>scenario_single\<close> and
  \<open>scenario_two\<close> the model returns its first input, so the output rows are the
  one-hot rows of the predictions \<open>[0,0,1,1]\<close>; the targets are \<open>[0,1,1,1]\<close>; the four
  samples come in two batches. In \<open>all_wrong_single\<close> and \<open>all_wrong_two\<close> no
  prediction equals its target.
\<close>

definition scenario_single :: "(real list \<times> unit \<times> real list) list list" where
  "scenario_single =
     [[([1, 0], (), [1, 0]), ([1, 0], (), [0, 1])],
      [([0, 1], (), [0, 1]), ([0, 1], (), [0, 1])]]"

definition scenario_two :: "(real list \<times> unit \<times> unit \<times> real list) list list" where
  "scenario_two =
     [[([1, 0], (), (), [1, 0]), ([1, 0], (), (), [0, 1])],
      [([0, 1], (), (), [0, 1]), ([0, 1], (), (), [0, 1])]]"

definition all_wrong_single :: "(real list \<times> unit \<times> real list) list list" where
  "all_wrong_single = [[([1, 0], (), [0, 1]), ([0, 1], (), [1, 0])]]"

definition all_wrong_two :: "(real list \<times> unit \<times> unit \<times> real list) list list" where
  "all_wrong_two = [[([1, 0], (), (), [0, 1]), ([0, 1], (), (), [1, 0])]]"

subsection \<open>Trainer: \<^verbatim>\<open>train_single_span\<close>, \<^verbatim>\<open>train_two_span\<close>\<close>

text \<open>
  Of \<^verbatim>\<open>TrainConfig\<close> the control flow reads the hyper-parameters, the number of batches
  that \<^verbatim>\<open>train_data\<close> yields in one epoch, and the validation losses. The validation
  loss is computed by the black-box model on \<^verbatim>\<open>val_data\<close>: \<open>val_loss config k\<close> is the
  value that the call number \<open>k\<close> (from 0) of \<^verbatim>\<open>eval_single_span\<close> or
  \<^verbatim>\<open>eval_two_span\<close> returns. \<open>optimizer\<close> holds the \<^verbatim>\<open>lr\<close> entry of each of the
  optimizer's parameter groups when training starts.
\<close>

record TrainConfig =
  train_data :: nat
  val_loss :: "nat \<Rightarrow> real"
  optimizer :: "real list"
  lr :: real
  max_evals :: "int option"
  patience_lr :: int
  patience :: int
  eval_interval :: int

text \<open>
  One entry per evaluation, kept for the verification only: the number of optimizer steps
  taken when it ran, the loop index \<open>i\<close> that triggered it, its number, the loss it saw,
  the counter after the update, the learning rate and the optimizer's parameter groups
  before and after it, and whether it ended the training.
\<close>

record eval_record =
  at_step :: nat
  at_index :: int
  eval_no :: nat
  seen_loss :: real
  counter_after :: nat
  lr_before :: real
  lr_after :: real
  groups_before :: "real list"
  groups_after :: "real list"
  stopped :: bool

text \<open>
  The local variables of the training function: \<open>cur_lr\<close> is \<^verbatim>\<open>lr\<close>, \<open>evals\<close> is
  \<^verbatim>\<open>eval\<close>, \<open>loop_i\<close> is \<^verbatim>\<open>i\<close> (unbound before the first batch), \<open>min_loss\<close> is unbound
  before the first evaluation. \<open>param_groups\<close> is the live optimizer's
  \<^verbatim>\<open>g['lr']\<close> per parameter group. \<open>steps\<close> counts the calls of
  \<^verbatim>\<open>optimizer.step()\<close>, and \<open>history\<close> is the list of evaluations so far; neither
  is read by the control flow.
\<close>

record locals =
  cur_lr :: real
  evals :: nat
  counter :: nat
  start_index :: int
  min_loss :: "real option"
  loop_i :: "int option"
  param_groups :: "real list"
  steps :: nat
  history :: "eval_record list"

definition init_locals :: "TrainConfig \<Rightarrow> locals" where
  "init_locals config =
     \<lparr> cur_lr = lr config, evals = 0, counter = 0, start_index = 1, min_loss = None,
       loop_i = None, param_groups = optimizer config, steps = 0, history = [] \<rparr>"

definition record_eval :: "int \<Rightarrow> real \<Rightarrow> locals \<Rightarrow> bool \<Rightarrow> locals \<Rightarrow> locals" where
  "record_eval i l before stop s =
     s\<lparr> history := history s @
         [\<lparr> at_step = steps s, at_index = i, eval_no = evals s, seen_loss = l,
            counter_after = counter s, lr_before = cur_lr before, lr_after = cur_lr s,
            groups_before = param_groups before, groups_after = param_groups s,
            stopped = stop \<rparr>] \<rparr>"

text \<open>
  Lines 132-140 (197-205): count the evaluation, bind \<^verbatim>\<open>min_loss\<close> at the first one,
  then compare with strict \<open><\<close>.
\<close>

definition update_best :: "real \<Rightarrow> locals \<Rightarrow> py_error + locals" where
  "update_best l s =
     (let s1 = s\<lparr> evals := evals s + 1 \<rparr>;
          s2 = (if evals s1 = 1 then s1\<lparr> min_loss := Some l \<rparr> else s1)
      in case min_loss s2 of
           None \<Rightarrow> Inl UnboundLocalError
         | Some m \<Rightarrow>
             Inr (if l < m then s2\<lparr> min_loss := Some l, counter := 0 \<rparr>
                  else s2\<lparr> counter := counter s2 + 1 \<rparr>))"

text \<open>
  Lines 142-150 (208-216): the stop conditions in their order, then the decay of the
  learning rate. The result says whether the loop breaks. \<^verbatim>\<open>counter % patience_lr\<close>
  raises on \<^verbatim>\<open>patience_lr = 0\<close>.
\<close>

definition check_stop :: "TrainConfig \<Rightarrow> locals \<Rightarrow> py_error + (bool \<times> locals)" where
  "check_stop config s =
     (if (case max_evals config of None \<Rightarrow> False | Some me \<Rightarrow> me \<le> int (evals s))
      then Inr (True, s)
      else if patience config \<le> int (counter s) then Inr (True, s)
      else if patience_lr config = 0 then Inl ZeroDivisionError
      else if int (counter s) mod patience_lr config = 0 \<and> 0 < counter s
      then Inr (False, s\<lparr> cur_lr := cur_lr s / 2,
                          param_groups := map (\<lambda>g. cur_lr s / 2) (param_groups s) \<rparr>)
      else Inr (False, s))"

text \<open>
  The body of \<^verbatim>\<open>if i % config.eval_interval == 0\<close> (lines 129-150 and 194-216): the
  validation loss, the update of the best loss, the checks.
\<close>

definition evaluation :: "TrainConfig \<Rightarrow> int \<Rightarrow> locals \<Rightarrow> py_error + (bool \<times> locals)" where
  "evaluation config i s =
     (let l = val_loss config (evals s)
      in case update_best l s of
           Inl e \<Rightarrow> Inl e
         | Inr s3 \<Rightarrow>
             (case check_stop config s3 of
                Inl e \<Rightarrow> Inl e
              | Inr (b, s4) \<Rightarrow> Inr (b, record_eval i l s b s4)))"

datatype epoch_result = Exhausted locals | Broke locals | Raised py_error locals

text \<open>
  The \<^verbatim>\<open>for\<close> loop over one epoch; the list holds the values that \<^verbatim>\<open>i\<close> takes. Each
  batch is one optimizer step, then the test \<^verbatim>\<open>i % config.eval_interval == 0\<close>.
\<close>

fun run_epoch :: "TrainConfig \<Rightarrow> int list \<Rightarrow> locals \<Rightarrow> epoch_result" where
  "run_epoch config [] s = Exhausted s"
| "run_epoch config (i # rest) s =
     (let s1 = s\<lparr> loop_i := Some i, steps := steps s + 1 \<rparr>
      in if eval_interval config = 0 then Raised ZeroDivisionError s1
         else if i mod eval_interval config = 0
         then (case evaluation config i s1 of
                 Inl e \<Rightarrow> Raised e s1
               | Inr (True, s2) \<Rightarrow> Broke s2
               | Inr (False, s2) \<Rightarrow> run_epoch config rest s2)
         else run_epoch config rest s1)"

text \<open>\<^verbatim>\<open>enumerate(loop, start_index)\<close>: the indices of an epoch of \<open>n\<close> batches.\<close>

definition epoch_indices :: "int \<Rightarrow> nat \<Rightarrow> int list" where
  "epoch_indices start n = map (\<lambda>k. start + int k) [0..<n]"

datatype outcome =
    Finished (final: locals)
  | Failed py_error (final: locals)
  | OutOfFuel (final: locals)

text \<open>
  The \<^verbatim>\<open>while True\<close> loop over the epochs. It need not end, so the model takes the number
  of epochs it may start: \<open>OutOfFuel\<close> is the run still going after that many epochs.
  When the \<^verbatim>\<open>for\<close> loop ends without \<^verbatim>\<open>break\<close>, its \<^verbatim>\<open>else\<close> clause sets
  \<^verbatim>\<open>start_index = i % config.eval_interval\<close>.
\<close>

fun train_loop :: "nat \<Rightarrow> TrainConfig \<Rightarrow> locals \<Rightarrow> outcome" where
  "train_loop 0 config s = OutOfFuel s"
| "train_loop (Suc fuel) config s =
     (case run_epoch config (epoch_indices (start_index s) (train_data config)) s of
        Raised e s' \<Rightarrow> Failed e s'
      | Broke s' \<Rightarrow> Finished s'
      | Exhausted s' \<Rightarrow>
          (case loop_i s' of
             None \<Rightarrow> Failed UnboundLocalError s'
           | Some i \<Rightarrow>
               if eval_interval config = 0 then Failed ZeroDivisionError s'
               else train_loop fuel config (s'\<lparr> start_index := i mod eval_interval config \<rparr>)))"

text \<open>
  The two training functions share this control flow; they differ in the forward pass of
  the black-box model (one span mask or two) and in a progress message.
\<close>

definition train_single_span :: "nat \<Rightarrow> TrainConfig \<Rightarrow> outcome" where
  "train_single_span fuel config = train_loop fuel config (init_locals config)"

definition train_two_span :: "nat \<Rightarrow> TrainConfig \<Rightarrow> outcome" where
  "train_two_span fuel config = train_loop fuel config (init_locals config)"

text \<open>
  Properties of the recorded evaluations, used to state the claims. \<open>chain_ok\<close>: the first
  evaluation starts from the learning rate \<open>l0\<close> and parameter groups \<open>g0\<close>, each later one
  from what the previous one left, and \<open>l\<close>, \<open>g\<close> are what the last one left.
  \<open>same_or_halved\<close>: an evaluation leaves the learning rate and the parameter groups
  untouched, or it halves the learning rate and sets every parameter group to the halved
  value, whatever the group held; the latter only when it does not stop the training and
  the counter is a positive multiple of \<^verbatim>\<open>patience_lr\<close>.
\<close>

fun chain_ok :: "real \<Rightarrow> real list \<Rightarrow> eval_record list \<Rightarrow> real \<Rightarrow> real list \<Rightarrow> bool" where
  "chain_ok l0 g0 [] l g = (l = l0 \<and> g = g0)"
| "chain_ok l0 g0 (r # h) l g =
     (lr_before r = l0 \<and> groups_before r = g0 \<and> chain_ok (lr_after r) (groups_after r) h l g)"

definition same_or_halved :: "TrainConfig \<Rightarrow> eval_record \<Rightarrow> bool" where
  "same_or_halved config r =
     (lr_after r = lr_before r \<and> groups_after r = groups_before r
      \<or> lr_after r = lr_before r / 2
         \<and> groups_after r = map (\<lambda>g. lr_after r) (groups_before r)
         \<and> 0 < counter_after r \<and> int (counter_after r) mod patience_lr config = 0
         \<and> \<not> stopped r)"

text \<open>\<open>decreasing\<close>: the learning rate is positive and the evaluation does not raise it.\<close>

definition decreasing :: "eval_record \<Rightarrow> bool" where
  "decreasing r = (0 < lr_after r \<and> lr_after r \<le> lr_before r
     \<and> (lr_after r = lr_before r \<or> lr_after r < lr_before r \<and> lr_after r = lr_before r / 2))"

fun epoch_state :: "epoch_result \<Rightarrow> locals" where
  "epoch_state (Exhausted s) = s"
| "epoch_state (Broke s) = s"
| "epoch_state (Raised e s) = s"

text \<open>
  Auxiliary notions of the verification. \<open>lr_inv\<close> is the invariant of the learning
  rate; \<open>after_epoch\<close> is what the \<^verbatim>\<open>while\<close> loop does with the result of an
  epoch, \<open>resume\<close> is a run that continues in the middle of an epoch, and
  \<open>after_eval\<close> is what follows an evaluation; \<open>gap E a\<close> is the distance from the
  index \<open>a\<close> to the next multiple of \<open>E\<close>.
\<close>

definition lr_inv :: "TrainConfig \<Rightarrow> locals \<Rightarrow> bool" where
  "lr_inv config s \<longleftrightarrow>
     chain_ok (lr config) (optimizer config) (history s) (cur_lr s) (param_groups s)
   \<and> (\<forall>r\<in>set (history s). same_or_halved config r)"

text \<open>
  A run whose optimizer was built with another learning rate than \<^verbatim>\<open>config.lr\<close> in its
  first parameter group.
\<close>

definition decay_config :: TrainConfig where
  "decay_config = \<lparr> train_data = 2, val_loss = (\<lambda>k. 1), optimizer = [1 / 100, 1 / 10], lr = 1 / 10,
     max_evals = None, patience_lr = 1, patience = 3, eval_interval = 1 \<rparr>"

definition after_epoch :: "nat \<Rightarrow> TrainConfig \<Rightarrow> epoch_result \<Rightarrow> outcome" where
  "after_epoch fuel config r =
     (case r of
        Raised e s' \<Rightarrow> Failed e s'
      | Broke s' \<Rightarrow> Finished s'
      | Exhausted s' \<Rightarrow>
          (case loop_i s' of
             None \<Rightarrow> Failed UnboundLocalError s'
           | Some i \<Rightarrow>
               if eval_interval config = 0 then Failed ZeroDivisionError s'
               else train_loop fuel config (s'\<lparr> start_index := i mod eval_interval config \<rparr>)))"

definition resume :: "nat \<Rightarrow> TrainConfig \<Rightarrow> int list \<Rightarrow> locals \<Rightarrow> outcome" where
  "resume fuel config idxs s = after_epoch fuel config (run_epoch config idxs s)"

definition after_eval :: "nat \<Rightarrow> TrainConfig \<Rightarrow> int list \<Rightarrow> locals \<Rightarrow> py_error + (bool \<times> locals) \<Rightarrow> outcome" where
  "after_eval fuel config rest s1 r =
     (case r of
        Inl e \<Rightarrow> Failed e s1
      | Inr (b, s2) \<Rightarrow> if b then Finished s2 else resume fuel config rest s2)"

definition gap :: "int \<Rightarrow> int \<Rightarrow> nat" where
  "gap E a = nat ((- a) mod E)"

text \<open>
  The number of the evaluation that ends a run whose validation loss never falls below the
  first one: the smaller of \<^verbatim>\<open>max_evals\<close> (when set) and \<^verbatim>\<open>patience\<close>.
\<close>

definition stop_eval :: "TrainConfig \<Rightarrow> nat" where
  "stop_eval config =
     (case max_evals config of
        None \<Rightarrow> nat (patience config)
      | Some m \<Rightarrow> min (nat m) (nat (patience config)))"

definition never_improves :: "TrainConfig \<Rightarrow> bool" where
  "never_improves config = (\<forall>k. val_loss config 0 \<le> val_loss config k)"

definition stalled :: "TrainConfig \<Rightarrow> locals \<Rightarrow> bool" where
  "stalled config s \<longleftrightarrow>
     counter s = evals s \<and> evals s < stop_eval config
   \<and> (0 < evals s \<longrightarrow> min_loss s = Some (val_loss config 0))"


definition stalled_hist :: "TrainConfig \<Rightarrow> locals \<Rightarrow> bool" where
  "stalled_hist config s \<longleftrightarrow>
     stalled config s \<and> map counter_after (history s) = [1..<evals s + 1]"

definition first_eval_inv :: "locals \<Rightarrow> bool" where
  "first_eval_inv s \<longleftrightarrow>
     (if history s = [] then evals s = 0 \<and> counter s = 0
      else 0 < evals s \<and> eval_no (hd (history s)) = 1 \<and> counter_after (hd (history s)) = 1)"

text \<open>Concrete configurations used as inputs below.\<close>

definition patience_config :: TrainConfig where
  "patience_config = \<lparr> train_data = 2, val_loss = (\<lambda>k. 1), optimizer = [1 / 10], lr = 1 / 10,
     max_evals = None, patience_lr = 5, patience = 3, eval_interval = 1 \<rparr>"

text \<open>
  \<open>all_counted\<close>: every evaluation so far has raised the counter, and the best loss is
  still the one of the first evaluation.
\<close>

definition all_counted :: "TrainConfig \<Rightarrow> locals \<Rightarrow> bool" where
  "all_counted config s \<longleftrightarrow>
     counter s = evals s \<and> (0 < evals s \<longrightarrow> min_loss s = Some (val_loss config 0))
   \<and> (\<forall>r\<in>set (history s). counter_after r = eval_no r)"


text \<open>
  Further configurations: three batches per epoch evaluated every two batches; a run with
  \<^verbatim>\<open>max_evals = 10\<close> and \<^verbatim>\<open>patience = 2\<close>; one batch per epoch with
  \<^verbatim>\<open>eval_interval = 2\<close>; and \<^verbatim>\<open>max_evals = 3\<close> with \<^verbatim>\<open>patience = 100\<close>.
\<close>

definition interval_config :: TrainConfig where
  "interval_config = \<lparr> train_data = 3, val_loss = (\<lambda>k. 1), optimizer = [1 / 10], lr = 1 / 10,
     max_evals = Some 2, patience_lr = 5, patience = 20, eval_interval = 2 \<rparr>"


definition idle_config :: TrainConfig where
  "idle_config = \<lparr> train_data = 1, val_loss = (\<lambda>k. 1), optimizer = [1 / 10], lr = 1 / 10,
     max_evals = Some 3, patience_lr = 5, patience = 20, eval_interval = 2 \<rparr>"


subsection \<open>Span aligner: \<^verbatim>\<open>tokenize_jiant_dataset\<close>\<close>

text \<open>
  The tokenizer is a parameter of the function and belongs to the \<^verbatim>\<open>transformers\<close>
  library. The model starts from what the call
  \<^verbatim>\<open>tokenizer(texts, return_tensors="pt", max_length=128, truncation=True, padding="max_length")\<close>
  returns: \<open>input_ids\<close> holds one row of token ids per text, and \<open>word_tables\<close> holds for
  each text the token span \<open>(start, end)\<close> of each of its words, or \<open>None\<close> for a word
  index that has no token in the row.
\<close>

type_synonym token_span = "nat \<times> nat"

record BatchEncoding =
  input_ids :: "int list list"
  word_tables :: "(int \<Rightarrow> token_span option) list"

definition tokenizer_max_length :: nat where
  "tokenizer_max_length = 128"

text \<open>Sequencing of computations that may raise.\<close>

definition and_then :: "py_error + 'a \<Rightarrow> ('a \<Rightarrow> py_error + 'b) \<Rightarrow> py_error + 'b" where
  "and_then r f = (case r of Inl e \<Rightarrow> Inl e | Inr x \<Rightarrow> f x)"

text \<open>Python's \<^verbatim>\<open>xs[n]\<close> for an index \<open>n \<ge> 0\<close>.\<close>

definition py_nth :: "'a list \<Rightarrow> nat \<Rightarrow> py_error + 'a" where
  "py_nth xs n = (if n < length xs then Inr (xs ! n) else Inl IndexError)"

text \<open>
  The library method
  \<^verbatim>\<open>BatchEncoding.word_to_tokens(batch_or_word_index, word_index=None, sequence_index=0)\<close>:
  when \<^verbatim>\<open>word_index\<close> is given, the first argument is the index of the sequence in the
  batch; when it is not, the first argument is the word index and the sequence is number 0
  of the batch. A negative batch index counts from the end.
\<close>

definition word_to_tokens ::
  "BatchEncoding \<Rightarrow> int \<Rightarrow> int option \<Rightarrow> py_error + token_span option" where
  "word_to_tokens enc batch_or_word_index word_index =
     (let b = (case word_index of None \<Rightarrow> 0 | Some w \<Rightarrow> batch_or_word_index);
          w = (case word_index of None \<Rightarrow> batch_or_word_index | Some w \<Rightarrow> w);
          b' = (if b < 0 then int (length (word_tables enc)) + b else b)
      in if 0 \<le> b' \<and> b' < int (length (word_tables enc))
         then Inr ((word_tables enc ! nat b') w)
         else Inl IndexError)"

text \<open>
  Lines 506-507: \<^verbatim>\<open>target = torch.zeros(max_seq_length).int()\<close> raises on a negative
  length, and \<^verbatim>\<open>target[:tokens.shape[0]] = tokens\<close> raises when the slice of \<^verbatim>\<open>target\<close>
  is shorter than \<^verbatim>\<open>tokens\<close>.
\<close>

definition zeros :: "int \<Rightarrow> py_error + int list" where
  "zeros n = (if n < 0 then Inl RuntimeError else Inr (replicate (nat n) 0))"

definition assign_prefix :: "int list \<Rightarrow> int list \<Rightarrow> py_error + int list" where
  "assign_prefix target tokens =
     (if length tokens \<le> length target then Inr (tokens @ drop (length tokens) target)
      else Inl RuntimeError)"

definition pad_tokens :: "int \<Rightarrow> int list \<Rightarrow> py_error + int list" where
  "pad_tokens max_seq_length tokens =
     and_then (zeros max_seq_length) (\<lambda>target. assign_prefix target tokens)"

text \<open>\<^verbatim>\<open>encodings.word_to_tokens(spans[i][j])\<close>, with one argument as the source calls it.\<close>

definition lookup_span ::
  "BatchEncoding \<Rightarrow> int list list \<Rightarrow> nat \<Rightarrow> nat \<Rightarrow> py_error + token_span option" where
  "lookup_span enc spans i j =
     and_then (py_nth spans i) (\<lambda>sp.
     and_then (py_nth sp j) (\<lambda>w. word_to_tokens enc w None))"

text \<open>A list display evaluates its elements from left to right; the first error wins.\<close>

fun collect :: "(py_error + 'a) list \<Rightarrow> py_error + 'a list" where
  "collect [] = Inr []"
| "collect (r # rs) = and_then r (\<lambda>x. and_then (collect rs) (\<lambda>xs. Inr (x # xs)))"

text \<open>Lines 513-519 and 530-533: the list \<^verbatim>\<open>spans\<close> of the sample number \<open>i\<close>.\<close>

definition lookup_spans ::
  "BatchEncoding \<Rightarrow> int list list \<Rightarrow> int list list \<Rightarrow> nat \<Rightarrow> py_error + token_span option list" where
  "lookup_spans enc span1s span2s i =
     (if span2s \<noteq> []
      then collect [lookup_span enc span1s i 0, lookup_span enc span1s i 1,
                    lookup_span enc span2s i 0, lookup_span enc span2s i 1]
      else collect [lookup_span enc span1s i 0, lookup_span enc span1s i 1])"

text \<open>
  \<^verbatim>\<open>torch.minimum(torch.arange(n) >= start, torch.arange(n) < end)\<close>: the conjunction of the
  two comparisons at each position.
\<close>

definition span_mask :: "int \<Rightarrow> nat \<Rightarrow> nat \<Rightarrow> bool list" where
  "span_mask max_seq_length span_start span_end =
     map (\<lambda>p. span_start \<le> p \<and> p < span_end) [0..<nat max_seq_length]"

text \<open>
  Lines 541-543: the one-hot label. The dictionary is a list of pairs read with
  \<open>map_of\<close>; the comprehension looks \<^verbatim>\<open>labels_to_ids[labels[i]]\<close> up once for each
  \<open>k\<close>, so not at all when the dictionary is empty.
\<close>

definition num_labels :: "(string \<times> int) list \<Rightarrow> nat" where
  "num_labels labels_to_ids = length (remdups (map fst labels_to_ids))"

definition label_tensor :: "(string \<times> int) list \<Rightarrow> string list \<Rightarrow> nat \<Rightarrow> py_error + real list" where
  "label_tensor labels_to_ids labels i =
     (if num_labels labels_to_ids = 0 then Inr []
      else and_then (py_nth labels i) (\<lambda>l.
           case map_of labels_to_ids l of
             None \<Rightarrow> Inl KeyError
           | Some c \<Rightarrow> Inr (map (\<lambda>k. if c = int k then 1 else 0) [0..<num_labels labels_to_ids])))"

text \<open>
  The four output lists. \<open>kept\<close> records the index \<open>i\<close> of each sample that was appended;
  it is kept for the verification only.
\<close>

record aligned =
  updated_input_ids :: "int list list"
  span1_masks :: "bool list list"
  span2_masks :: "bool list list"
  label_tensors :: "real list list"
  kept :: "nat list"

definition no_samples :: aligned where
  "no_samples = \<lparr> updated_input_ids = [], span1_masks = [], span2_masks = [],
                  label_tensors = [], kept = [] \<rparr>"

text \<open>
  The body of the loop for the sample number \<open>i\<close> with the row \<open>tokens\<close>. \<open>None \<in> set spans\<close>
  is \<^verbatim>\<open>if None in spans: continue\<close>, which leaves every list as it was.
\<close>

definition align_sample ::
  "BatchEncoding \<Rightarrow> int list list \<Rightarrow> int list list \<Rightarrow> string list \<Rightarrow> (string \<times> int) list \<Rightarrow> int
     \<Rightarrow> nat \<Rightarrow> int list \<Rightarrow> aligned \<Rightarrow> py_error + aligned" where
  "align_sample enc span1s span2s labels labels_to_ids max_seq_length i tokens acc =
     and_then (pad_tokens max_seq_length tokens) (\<lambda>target.
     and_then (lookup_spans enc span1s span2s i) (\<lambda>spans.
       if None \<in> set spans then Inr acc
       else
         let acc1 = (if span2s \<noteq> []
                     then acc\<lparr> span2_masks := span2_masks acc @
                            [span_mask max_seq_length (fst (the (spans ! 2))) (snd (the (spans ! 3)))] \<rparr>
                     else acc);
             span1_mask = span_mask max_seq_length (fst (the (spans ! 0))) (snd (the (spans ! 1)))
         in and_then (label_tensor labels_to_ids labels i) (\<lambda>label.
              Inr (acc1\<lparr> updated_input_ids := updated_input_ids acc1 @ [target],
                         span1_masks := span1_masks acc1 @ [span1_mask],
                         label_tensors := label_tensors acc1 @ [label],
                         kept := kept acc1 @ [i] \<rparr>))))"

text \<open>\<^verbatim>\<open>for i, tokens in enumerate(encodings.input_ids)\<close>.\<close>

fun align_loop ::
  "BatchEncoding \<Rightarrow> int list list \<Rightarrow> int list list \<Rightarrow> string list \<Rightarrow> (string \<times> int) list \<Rightarrow> int
     \<Rightarrow> (nat \<times> int list) list \<Rightarrow> aligned \<Rightarrow> py_error + aligned" where
  "align_loop enc span1s span2s labels labels_to_ids max_seq_length [] acc = Inr acc"
| "align_loop enc span1s span2s labels labels_to_ids max_seq_length ((i, tokens) # rest) acc =
     and_then (align_sample enc span1s span2s labels labels_to_ids max_seq_length i tokens acc)
       (align_loop enc span1s span2s labels labels_to_ids max_seq_length rest)"

text \<open>
  The function, from the tokenizer's result on. The result holds the four lists that
  \<^verbatim>\<open>encodings.update\<close> stores.
\<close>

definition tokenize_jiant_dataset ::
  "BatchEncoding \<Rightarrow> int list list \<Rightarrow> int list list \<Rightarrow> string list \<Rightarrow> (string \<times> int) list \<Rightarrow> int
     \<Rightarrow> py_error + aligned" where
  "tokenize_jiant_dataset encodings span1s span2s labels labels_to_ids max_seq_length =
     align_loop encodings span1s span2s labels labels_to_ids max_seq_length
       (enumerate 0 (input_ids encodings)) no_samples"

text \<open>
  What the tokenizer call guarantees: one word table per row, every row padded or truncated
  to 128 tokens, and token spans that lie within the row.
\<close>

definition tokenizer_output :: "BatchEncoding \<Rightarrow> bool" where
  "tokenizer_output enc \<longleftrightarrow>
     length (word_tables enc) = length (input_ids enc)
   \<and> (\<forall>row\<in>set (input_ids enc). length row = tokenizer_max_length)
   \<and> (\<forall>t\<in>set (word_tables enc). \<forall>w s e. t w = Some (s, e) \<longrightarrow> e \<le> tokenizer_max_length)"

text \<open>
  An example batch of two texts of two words each: in the first both words are one token, in
  the second the first word is split into four tokens. Token 0 is the start marker.
\<close>

definition row_of :: "int list \<Rightarrow> int list" where
  "row_of toks = toks @ replicate (tokenizer_max_length - length toks) 0"

definition two_texts :: BatchEncoding where
  "two_texts =
     \<lparr> input_ids = [row_of [101, 1037, 1038, 102], row_of [101, 7861, 8270, 4667, 2015, 2600, 102]],
       word_tables = [(\<lambda>w. if w = 0 then Some (1, 2) else if w = 1 then Some (2, 3) else None),
                      (\<lambda>w. if w = 0 then Some (1, 5) else if w = 1 then Some (5, 6) else None)] \<rparr>"

text \<open>
  \<open>resolved\<close>: all lookups of the sample number \<open>i\<close> return, none of them \<open>None\<close>.
  \<open>in_step\<close>: the output lists have one entry per kept sample.
\<close>

definition resolved :: "BatchEncoding \<Rightarrow> int list list \<Rightarrow> int list list \<Rightarrow> nat \<Rightarrow> bool" where
  "resolved enc span1s span2s i =
     (case lookup_spans enc span1s span2s i of Inl e \<Rightarrow> False | Inr spans \<Rightarrow> None \<notin> set spans)"

definition in_step :: "int list list \<Rightarrow> aligned \<Rightarrow> bool" where
  "in_step span2s acc \<longleftrightarrow>
     length (updated_input_ids acc) = length (kept acc)
   \<and> length (span1_masks acc) = length (kept acc)
   \<and> length (label_tensors acc) = length (kept acc)
   \<and> length (span2_masks acc) = (if span2s \<noteq> [] then length (kept acc) else 0)"

text \<open>
  \<open>zero_beyond\<close> and \<open>false_beyond\<close>: a vector has the length \<^verbatim>\<open>max_seq_length\<close> and
  holds only 0 (only \<open>False\<close>) from position 128 on.
\<close>

definition zero_beyond :: "int \<Rightarrow> int list \<Rightarrow> bool" where
  "zero_beyond max_seq_length row \<longleftrightarrow>
     length row = nat max_seq_length
   \<and> drop tokenizer_max_length row = replicate (nat max_seq_length - tokenizer_max_length) 0"

definition false_beyond :: "int \<Rightarrow> bool list \<Rightarrow> bool" where
  "false_beyond max_seq_length m \<longleftrightarrow>
     length m = nat max_seq_length
   \<and> drop tokenizer_max_length m = replicate (nat max_seq_length - tokenizer_max_length) False"

definition beyond_inv :: "int \<Rightarrow> aligned \<Rightarrow> bool" where
  "beyond_inv max_seq_length acc \<longleftrightarrow>
     list_all (zero_beyond max_seq_length) (updated_input_ids acc)
   \<and> list_all (false_beyond max_seq_length) (span1_masks acc)
   \<and> list_all (false_beyond max_seq_length) (span2_masks acc)"

subsection \<open>Sweep controller: \<^verbatim>\<open>probing\<close>\<close>

text \<open>
  Of \<^verbatim>\<open>ProbeConfig\<close> the sweep itself reads the model name, the list of layers, the task
  type and the results path; the other fields are passed on to the model, the trainer and
  the tester.
\<close>

record ProbeConfig =
  model_name :: string
  num_layers :: "int list"
  task_type :: string
  results_path :: "string option"

text \<open>The entry \<^verbatim>\<open>{"loss": loss, "accuracy": accuracy, "f1_score": f1_score}\<close> of one layer.\<close>

record metrics =
  loss_m :: real
  accuracy_m :: real
  f1_score_m :: real

text \<open>
  \<^verbatim>\<open>json.dump\<close> of a dictionary with integer keys writes each key as its decimal string;
  a document is the list of its members in order.
\<close>

fun digits_of :: "nat \<Rightarrow> string" where
  "digits_of n =
     (if n < 10 then [''0123456789'' ! n]
      else digits_of (n div 10) @ [''0123456789'' ! (n mod 10)])"

definition str_int :: "int \<Rightarrow> string" where
  "str_int i = (if i < 0 then CHR ''-'' # digits_of (nat (- i)) else digits_of (nat i))"

definition json_dump :: "(int \<times> metrics) list \<Rightarrow> (string \<times> metrics) list" where
  "json_dump results = map (\<lambda>(layer, m). (str_int layer, m)) results"

text \<open>
  The state of a sweep: the dictionary \<^verbatim>\<open>results\<close> in insertion order, and the files on
  disk by path.
\<close>

record sweep_state =
  results :: "(int \<times> metrics) list"
  files :: "string \<Rightarrow> (string \<times> metrics) list option"

text \<open>
  How a sweep ends: it returns (\<open>None\<close> for an unknown task type, else the dictionary), a
  layer raises, or \<^verbatim>\<open>open\<close> fails on the results file.
\<close>

datatype sweep_end =
    Returned "(int \<times> metrics) list option"
  | Crashed py_error
  | OpenFailed

text \<open>
  The loop over \<^verbatim>\<open>config.num_layers\<close>. \<open>run_layer\<close> stands for the black box of one
  iteration: \<^verbatim>\<open>from_pretrained\<close> with \<^verbatim>\<open>num_hidden_layers=layer\<close>, the training and the
  test of that model; it yields the three metrics or raises. \<open>writable\<close> says whether
  \<^verbatim>\<open>open(path, "w")\<close> succeeds, which replaces the file's content. A model name that starts
  with neither \<^verbatim>\<open>roberta\<close> nor \<^verbatim>\<open>bert\<close> leaves \<^verbatim>\<open>probing_model\<close> unbound.
\<close>

fun probing_loop ::
  "ProbeConfig \<Rightarrow> (int \<Rightarrow> py_error + metrics) \<Rightarrow> (string \<Rightarrow> bool) \<Rightarrow> int list \<Rightarrow> sweep_state
     \<Rightarrow> sweep_end \<times> sweep_state" where
  "probing_loop config run_layer writable [] st = (Returned (Some (results st)), st)"
| "probing_loop config run_layer writable (layer # rest) st =
     (if task_type config = ''single_span'' \<or> task_type config = ''two_span''
      then if \<not> (prefix ''roberta'' (model_name config) \<or> prefix ''bert'' (model_name config))
           then (Crashed UnboundLocalError, st)
           else (case run_layer layer of
                   Inl e \<Rightarrow> (Crashed e, st)
                 | Inr m \<Rightarrow>
                     let st1 = st\<lparr> results := AList.update layer m (results st) \<rparr>
                     in (case results_path config of
                           None \<Rightarrow> probing_loop config run_layer writable rest st1
                         | Some p \<Rightarrow>
                             if writable (p @ ''/results.json'')
                             then probing_loop config run_layer writable rest
                                    (st1\<lparr> files := (files st1)
                                            (p @ ''/results.json'' \<mapsto> json_dump (results st1)) \<rparr>)
                             else (OpenFailed, st1)))
      else (Returned None, st))"

definition probing ::
  "ProbeConfig \<Rightarrow> (int \<Rightarrow> py_error + metrics) \<Rightarrow> (string \<Rightarrow> bool)
     \<Rightarrow> (string \<Rightarrow> (string \<times> metrics) list option) \<Rightarrow> sweep_end \<times> sweep_state" where
  "probing config run_layer writable disk =
     probing_loop config run_layer writable (num_layers config) \<lparr> results = [], files = disk \<rparr>"

text \<open>
  \<open>completed_table\<close>: the dictionary after the layers \<open>ls\<close> have completed with the metrics
  \<open>m\<close>, starting from \<open>t\<close>.
\<close>

definition completed_table :: "(int \<Rightarrow> metrics) \<Rightarrow> int list \<Rightarrow> (int \<times> metrics) list \<Rightarrow> (int \<times> metrics) list" where
  "completed_table m ls t = fold (\<lambda>l. AList.update l (m l)) ls t"

text \<open>An example sweep over the layers 1, 2, 3 and one whose third layer raises.\<close>

definition sweep_config :: ProbeConfig where
  "sweep_config = \<lparr> model_name = ''bert-base-uncased'', num_layers = [1, 2, 3],
                    task_type = ''single_span'', results_path = Some ''out'' \<rparr>"

definition layer_metrics :: "int \<Rightarrow> metrics" where
  "layer_metrics l = \<lparr> loss_m = 1 / real_of_int l, accuracy_m = 3 / 4, f1_score_m = 15 / 19 \<rparr>"

definition crash_at_3 :: "int \<Rightarrow> py_error + metrics" where
  "crash_at_3 l = (if l = 3 then Inl ZeroDivisionError else Inr (layer_metrics l))"

(*DEFS-END*)

section \<open>Verification\<close>

subsection \<open>Tester\<close>

lemma count_ids_preds_sum:
  "preds_sum (count_ids ps ts ids a) i = preds_sum a i + real (count_list ids i) * sum_eq ps i"
  by (induction ids arbitrary: a) (auto simp: algebra_simps)

lemma count_ids_targets_sum:
  "targets_sum (count_ids ps ts ids a) i = targets_sum a i + real (count_list ids i) * sum_eq ts i"
  by (induction ids arbitrary: a) (auto simp: algebra_simps)

lemma count_ids_correct_sum:
  "preds_correct_sum (count_ids ps ts ids a) i =
     preds_correct_sum a i + real (count_list ids i) * sum_both ps ts i"
  by (induction ids arbitrary: a) (auto simp: algebra_simps)

lemma count_ids_loss: "loss (count_ids ps ts ids a) = loss a"
  by (induction ids arbitrary: a) auto

lemma count_ids_accuracy: "accuracy (count_ids ps ts ids a) = accuracy a"
  by (induction ids arbitrary: a) auto

lemma sum_eq_append: "sum_eq (xs @ ys) v = sum_eq xs v + sum_eq ys v"
  by (simp add: sum_eq_def)

lemma length_preds_targets: "length (preds_of b) = length (targets_max_of b)"
  by (simp add: preds_of_def targets_max_of_def)

lemma sum_both_append:
  "length ps = length ts \<Longrightarrow>
     sum_both (ps @ ps') (ts @ ts') v = sum_both ps ts v + sum_both ps' ts' v"
  by (simp add: sum_both_def)

lemma test_loop_preds_sum:
  "preds_sum (test_loop lf ids bs a) i =
     preds_sum a i + real (count_list ids i) * sum_eq (all_preds bs) i"
  by (induction bs arbitrary: a)
     (auto simp: all_preds_def test_batch_def Let_def count_ids_preds_sum sum_eq_append
        algebra_simps sum_eq_def)

lemma test_loop_targets_sum:
  "targets_sum (test_loop lf ids bs a) i =
     targets_sum a i + real (count_list ids i) * sum_eq (all_targets bs) i"
  by (induction bs arbitrary: a)
     (auto simp: all_targets_def test_batch_def Let_def count_ids_targets_sum sum_eq_append
        algebra_simps sum_eq_def)

lemma test_loop_correct_sum:
  "preds_correct_sum (test_loop lf ids bs a) i =
     preds_correct_sum a i + real (count_list ids i) * sum_both (all_preds bs) (all_targets bs) i"
proof (induction bs arbitrary: a)
  case Nil
  show ?case by (simp add: all_preds_def all_targets_def sum_both_def)
next
  case (Cons b bs)
  have "sum_both (all_preds (b # bs)) (all_targets (b # bs)) i =
        sum_both (preds_of b) (targets_max_of b) i + sum_both (all_preds bs) (all_targets bs) i"
    using sum_both_append [OF length_preds_targets, of b]
    by (simp add: all_preds_def all_targets_def)
  then show ?case
    by (simp add: Cons.IH test_batch_def Let_def count_ids_correct_sum algebra_simps)
qed

lemma test_loop_accuracy:
  "accuracy (test_loop lf ids bs a) =
     accuracy a + (\<Sum>b\<leftarrow>bs. batch_accuracy (preds_of b) (targets_max_of b))"
  by (induction bs arbitrary: a) (simp_all add: test_batch_def Let_def count_ids_accuracy)

lemma test_loop_loss: "loss (test_loop lf ids bs a) = loss a + (\<Sum>b\<leftarrow>bs. lf b)"
  by (induction bs arbitrary: a) (simp_all add: test_batch_def Let_def count_ids_loss)

lemma precision_after_loop:
  "precision (test_loop lf ids bs test_acc_init) ids =
     map (spec_precision (all_preds bs) (all_targets bs)) ids"
  by (simp add: precision_def spec_precision_def test_loop_preds_sum test_loop_correct_sum
        test_acc_init_def count_list_0_iff)

lemma recall_after_loop:
  "recall (test_loop lf ids bs test_acc_init) ids =
     map (spec_recall (all_preds bs) (all_targets bs)) ids"
  by (simp add: recall_def spec_recall_def test_loop_targets_sum test_loop_correct_sum
        test_acc_init_def count_list_0_iff)

lemma test_pass_Inr:
  assumes "ids \<noteq> []"
    and "spec_macro (spec_precision (all_preds bs) (all_targets bs)) ids
       + spec_macro (spec_recall (all_preds bs) (all_targets bs)) ids \<noteq> 0"
  shows "\<exists>l a. test_pass lf ids bs =
     Inr (l, a, 2 * (spec_macro (spec_precision (all_preds bs) (all_targets bs)) ids
                   * spec_macro (spec_recall (all_preds bs) (all_targets bs)) ids)
              / (spec_macro (spec_precision (all_preds bs) (all_targets bs)) ids
                   + spec_macro (spec_recall (all_preds bs) (all_targets bs)) ids))"
proof -
  have "bs \<noteq> []"
  proof
    assume "bs = []"
    then have "spec_macro (spec_precision (all_preds bs) (all_targets bs)) ids = 0"
      and "spec_macro (spec_recall (all_preds bs) (all_targets bs)) ids = 0"
      by (simp_all add: spec_macro_def spec_precision_def spec_recall_def all_preds_def
            all_targets_def sum_eq_def)
    with assms(2) show False by simp
  qed
  with assms show ?thesis
    by (simp add: test_pass_def test_metrics_def Let_def precision_after_loop recall_after_loop
          spec_macro_def)
qed

lemma scenario_single_preds:
  "all_preds (forward_single (\<lambda>xb span1. xb) scenario_single) = [0, 0, 1, 1]"
  by (simp add: forward_single_def scenario_single_def all_preds_def preds_of_def)

lemma scenario_single_targets:
  "all_targets (forward_single (\<lambda>xb span1. xb) scenario_single) = [0, 1, 1, 1]"
  by (simp add: forward_single_def scenario_single_def all_targets_def targets_max_of_def)

lemma scenario_two_preds:
  "all_preds (forward_two (\<lambda>xb span1 span2. xb) scenario_two) = [0, 0, 1, 1]"
  by (simp add: forward_two_def scenario_two_def all_preds_def preds_of_def)

lemma scenario_two_targets:
  "all_targets (forward_two (\<lambda>xb span1 span2. xb) scenario_two) = [0, 1, 1, 1]"
  by (simp add: forward_two_def scenario_two_def all_targets_def targets_max_of_def)

lemma scenario_macro_precision:
  "spec_macro (spec_precision [0, 0, 1, 1] [0, 1, 1, 1]) [0, 1] = 3 / 4"
  by (simp add: spec_macro_def spec_precision_def sum_eq_def sum_both_def)

lemma scenario_macro_recall:
  "spec_macro (spec_recall [0, 0, 1, 1] [0, 1, 1, 1]) [0, 1] = 5 / 6"
  by (simp add: spec_macro_def spec_recall_def sum_eq_def sum_both_def)

lemma sum_both_batch_mismatch:
  "\<forall>(out, tgt)\<in>set b. argmax out \<noteq> argmax tgt \<Longrightarrow>
     sum_both (preds_of b) (targets_max_of b) i = 0"
  by (induction b) (auto simp: sum_both_def preds_of_def targets_max_of_def)

lemma sum_both_all_mismatch:
  "\<forall>b\<in>set bs. \<forall>(out, tgt)\<in>set b. argmax out \<noteq> argmax tgt \<Longrightarrow>
     sum_both (all_preds bs) (all_targets bs) i = 0"
proof (induction bs)
  case Nil
  show ?case by (simp add: all_preds_def all_targets_def sum_both_def)
next
  case (Cons b bs)
  have "sum_both (all_preds (b # bs)) (all_targets (b # bs)) i =
        sum_both (preds_of b) (targets_max_of b) i + sum_both (all_preds bs) (all_targets bs) i"
    using sum_both_append [OF length_preds_targets, of b]
    by (simp add: all_preds_def all_targets_def)
  with Cons show ?case by (simp add: sum_both_batch_mismatch)
qed

lemma test_pass_all_mismatch:
  assumes "ids \<noteq> []"
    and "\<forall>b\<in>set bs. \<forall>(out, tgt)\<in>set b. argmax out \<noteq> argmax tgt"
  shows "sum_list (precision (test_loop lf ids bs test_acc_init) ids) = 0"
    and "sum_list (recall (test_loop lf ids bs test_acc_init) ids) = 0"
    and "test_pass lf ids bs = Inl ZeroDivisionError"
proof -
  have z: "sum_both (all_preds bs) (all_targets bs) i = 0" for i
    using assms(2) by (rule sum_both_all_mismatch)
  have "spec_precision (all_preds bs) (all_targets bs) = (\<lambda>_. 0)"
    by (rule ext) (simp add: spec_precision_def z)
  then show p: "sum_list (precision (test_loop lf ids bs test_acc_init) ids) = 0"
    by (simp add: precision_after_loop)
  have "spec_recall (all_preds bs) (all_targets bs) = (\<lambda>_. 0)"
    by (rule ext) (simp add: spec_recall_def z)
  then show r: "sum_list (recall (test_loop lf ids bs test_acc_init) ids) = 0"
    by (simp add: recall_after_loop)
  show "test_pass lf ids bs = Inl ZeroDivisionError"
    using assms(1) by (simp add: test_pass_def test_metrics_def Let_def p r)
qed


text \<open>
  Claim C1. After a test pass of \<^verbatim>\<open>test_single_span\<close> or \<^verbatim>\<open>test_two_span\<close> over
  the label ids \<open>ids\<close>, the list \<open>precision\<close> holds correct/predicted per id (0 on a zero
  predicted count) and \<open>recall\<close> holds correct/actual (0 on a zero actual count), counted
  over the whole test set; with \<open>P\<close> and \<open>R\<close> the unweighted means of these over the
  \<open>length ids\<close> ids, the returned macro-F1 is \<open>2PR/(P+R)\<close> whenever the pass returns
  (ids non-empty and \<open>P + R \<noteq> 0\<close>). For the predictions \<open>[0,0,1,1]\<close> and targets
  \<open>[0,1,1,1]\<close> over two classes: precision \<open>[1/2, 1]\<close>, recall \<open>[1, 2/3]\<close>,
  \<open>P = 3/4\<close>, \<open>R = 5/6\<close>, macro-F1 \<open>= 15/19\<close>, within 0.001 of 0.789.
\<close>

theorem test_span_macro_metrics:
  "(let bs = forward_single model1 data1;
        P = spec_macro (spec_precision (all_preds bs) (all_targets bs)) ids;
        R = spec_macro (spec_recall (all_preds bs) (all_targets bs)) ids
    in precision (test_loop lf ids bs test_acc_init) ids
         = map (spec_precision (all_preds bs) (all_targets bs)) ids
     \<and> recall (test_loop lf ids bs test_acc_init) ids
         = map (spec_recall (all_preds bs) (all_targets bs)) ids
     \<and> (ids \<noteq> [] \<longrightarrow> P + R \<noteq> 0 \<longrightarrow>
          (\<exists>l a. test_single_span data1 model1 lf ids = Inr (l, a, 2 * (P * R) / (P + R)))))
 \<and> (let bs = forward_two model2 data2;
        P = spec_macro (spec_precision (all_preds bs) (all_targets bs)) ids;
        R = spec_macro (spec_recall (all_preds bs) (all_targets bs)) ids
    in precision (test_loop lf ids bs test_acc_init) ids
         = map (spec_precision (all_preds bs) (all_targets bs)) ids
     \<and> recall (test_loop lf ids bs test_acc_init) ids
         = map (spec_recall (all_preds bs) (all_targets bs)) ids
     \<and> (ids \<noteq> [] \<longrightarrow> P + R \<noteq> 0 \<longrightarrow>
          (\<exists>l a. test_two_span data2 model2 lf ids = Inr (l, a, 2 * (P * R) / (P + R)))))
 \<and> (let bs = forward_single (\<lambda>xb span1. xb) scenario_single;
        a = test_loop lf [0, 1] bs test_acc_init
    in all_preds bs = [0, 0, 1, 1] \<and> all_targets bs = [0, 1, 1, 1]
     \<and> precision a [0, 1] = [1 / 2, 1] \<and> recall a [0, 1] = [1, 2 / 3]
     \<and> sum_list (precision a [0, 1]) / real (length [0, 1 :: int]) = 3 / 4
     \<and> sum_list (recall a [0, 1]) / real (length [0, 1 :: int]) = 5 / 6
     \<and> (\<exists>l acc. test_single_span scenario_single (\<lambda>xb span1. xb) lf [0, 1] = Inr (l, acc, 15 / 19))
     \<and> \<bar>15 / 19 - 0.789\<bar> < (0.001 :: real))"
proof -
  have scen: "\<exists>l acc. test_single_span scenario_single (\<lambda>xb span1. xb) lf [0, 1] = Inr (l, acc, 15 / 19)"
    using test_pass_Inr [of "[0, 1]" "forward_single (\<lambda>xb span1. xb) scenario_single" lf]
    by (simp add: test_single_span_def scenario_single_preds scenario_single_targets
          scenario_macro_precision scenario_macro_recall)
  have pr: "precision (test_loop lf [0, 1] (forward_single (\<lambda>xb span1. xb) scenario_single) test_acc_init) [0, 1] = [1 / 2, 1]"
    by (simp add: precision_after_loop scenario_single_preds scenario_single_targets
          spec_precision_def sum_eq_def sum_both_def)
  have rc: "recall (test_loop lf [0, 1] (forward_single (\<lambda>xb span1. xb) scenario_single) test_acc_init) [0, 1] = [1, 2 / 3]"
    by (simp add: recall_after_loop scenario_single_preds scenario_single_targets
          spec_recall_def sum_eq_def sum_both_def)
  show ?thesis
    unfolding Let_def
    apply (intro conjI impI)
    apply (simp_all only: precision_after_loop recall_after_loop scenario_single_preds scenario_single_targets)
    subgoal using test_pass_Inr by (simp add: test_single_span_def)
    subgoal using test_pass_Inr by (simp add: test_two_span_def)
    subgoal using pr by (simp add: precision_after_loop scenario_single_preds scenario_single_targets)
    subgoal using rc by (simp add: recall_after_loop scenario_single_preds scenario_single_targets)
    subgoal using pr by (simp add: precision_after_loop scenario_single_preds scenario_single_targets)
    subgoal using rc by (simp add: recall_after_loop scenario_single_preds scenario_single_targets)
    subgoal using scen by simp
    subgoal by simp
    done
qed

theorem test_span_macro_metrics_witness:
  "[0, 1 :: int] \<noteq> [] \<and> (3 / 4 + 5 / 6 :: real) \<noteq> 0
   \<and> (\<exists>l a. test_single_span scenario_single (\<lambda>xb span1. xb) (\<lambda>b. 0) [0, 1]
              = Inr (l, a, 2 * (3 / 4 * (5 / 6)) / (3 / 4 + 5 / 6)))
   \<and> (\<exists>l a. test_two_span scenario_two (\<lambda>xb span1 span2. xb) (\<lambda>b. 0) [0, 1]
              = Inr (l, a, 2 * (3 / 4 * (5 / 6)) / (3 / 4 + 5 / 6)))"
  using test_span_macro_metrics [where ids = "[0, 1]" and lf = "\<lambda>b. 0"
      and ?model1.0 = "\<lambda>xb span1. xb" and ?data1.0 = scenario_single
      and ?model2.0 = "\<lambda>xb span1 span2. xb" and ?data2.0 = scenario_two]
  by (simp add: Let_def scenario_single_preds scenario_single_targets scenario_two_preds
        scenario_two_targets scenario_macro_precision scenario_macro_recall)

text \<open>
  Claim C3. The division of the macro-F1 is unguarded: on a test set on which no prediction
  equals its target (and the id list is non-empty, so that the two earlier divisions by
  \<open>len(ids)\<close> succeed), macro-precision plus macro-recall is 0 and both testers raise
  \<^verbatim>\<open>ZeroDivisionError\<close>.
\<close>

theorem macro_f1_zero_division:
  assumes "ids \<noteq> []"
    and "\<forall>b\<in>set data1. \<forall>(xb, span1, target)\<in>set b. argmax (model1 xb span1) \<noteq> argmax target"
    and "\<forall>b\<in>set data2. \<forall>(xb, span1, span2, target)\<in>set b.
           argmax (model2 xb span1 span2) \<noteq> argmax target"
  shows "(let a = test_loop lf ids (forward_single model1 data1) test_acc_init
          in sum_list (precision a ids) / real (length ids)
               + sum_list (recall a ids) / real (length ids) = 0)
       \<and> test_single_span data1 model1 lf ids = Inl ZeroDivisionError
       \<and> (let a = test_loop lf ids (forward_two model2 data2) test_acc_init
          in sum_list (precision a ids) / real (length ids)
               + sum_list (recall a ids) / real (length ids) = 0)
       \<and> test_two_span data2 model2 lf ids = Inl ZeroDivisionError"
proof -
  have m1: "\<forall>b\<in>set (forward_single model1 data1). \<forall>(out, tgt)\<in>set b. argmax out \<noteq> argmax tgt"
    using assms(2) by (fastforce simp: forward_single_def)
  have m2: "\<forall>b\<in>set (forward_two model2 data2). \<forall>(out, tgt)\<in>set b. argmax out \<noteq> argmax tgt"
    using assms(3) by (fastforce simp: forward_two_def)
  show ?thesis
    using test_pass_all_mismatch [OF assms(1) m1, of lf] test_pass_all_mismatch [OF assms(1) m2, of lf]
    by (simp add: Let_def test_single_span_def test_two_span_def)
qed

theorem macro_f1_zero_division_witness:
  "[0, 1 :: int] \<noteq> []
   \<and> test_single_span all_wrong_single (\<lambda>xb span1. xb) (\<lambda>b. 0) [0, 1] = Inl ZeroDivisionError
   \<and> test_two_span all_wrong_two (\<lambda>xb span1 span2. xb) (\<lambda>b. 0) [0, 1] = Inl ZeroDivisionError"
proof -
  have h0: "[0, 1 :: int] \<noteq> []" by simp
  have h1: "\<forall>b\<in>set all_wrong_single. \<forall>(xb, span1, target)\<in>set b. argmax xb \<noteq> argmax target"
    by (simp add: all_wrong_single_def)
  have h2: "\<forall>b\<in>set all_wrong_two. \<forall>(xb, span1, span2, target)\<in>set b. argmax xb \<noteq> argmax target"
    by (simp add: all_wrong_two_def)
  show ?thesis
    using macro_f1_zero_division [OF h0 h1 h2, of "\<lambda>b. 0"] by simp
qed

subsection \<open>Trainer\<close>

lemma chain_ok_snoc:
  "chain_ok l0 g0 h l g \<Longrightarrow> lr_before r = l \<Longrightarrow> groups_before r = g \<Longrightarrow>
     chain_ok l0 g0 (h @ [r]) (lr_after r) (groups_after r)"
  by (induction h arbitrary: l0 g0) auto

lemma update_best_keeps:
  "update_best l s = Inr s3 \<Longrightarrow>
     cur_lr s3 = cur_lr s \<and> param_groups s3 = param_groups s \<and> history s3 = history s
     \<and> steps s3 = steps s \<and> evals s3 = evals s + 1 \<and> loop_i s3 = loop_i s
     \<and> start_index s3 = start_index s"
  by (auto simp: update_best_def Let_def split: option.splits if_splits)

lemma check_stop_cases:
  assumes "check_stop config s = Inr (b, s4)"
  shows "history s4 = history s \<and> steps s4 = steps s \<and> evals s4 = evals s
       \<and> counter s4 = counter s \<and> min_loss s4 = min_loss s \<and> loop_i s4 = loop_i s
       \<and> start_index s4 = start_index s
       \<and> ((cur_lr s4 = cur_lr s \<and> param_groups s4 = param_groups s)
          \<or> (\<not> b \<and> cur_lr s4 = cur_lr s / 2
              \<and> param_groups s4 = map (\<lambda>g. cur_lr s / 2) (param_groups s)
              \<and> 0 < counter s \<and> int (counter s) mod patience_lr config = 0))"
  using assms by (auto simp: check_stop_def split: if_splits)

lemma evaluation_lr_inv:
  assumes ev: "evaluation config i s = Inr (b, s')" and inv: "lr_inv config s"
  shows "lr_inv config s'"
proof -
  from ev obtain s3 s4 where u: "update_best (val_loss config (evals s)) s = Inr s3"
    and c: "check_stop config s3 = Inr (b, s4)"
    and s': "s' = record_eval i (val_loss config (evals s)) s b s4"
    by (auto simp: evaluation_def Let_def split: sum.splits prod.splits)
  note k = update_best_keeps [OF u]
  note cs = check_stop_cases [OF c]
  let ?r = "last (history s')"
  have h: "history s' = history s @ [?r]"
    and rb: "lr_before ?r = cur_lr s" "groups_before ?r = param_groups s"
    and ra: "lr_after ?r = cur_lr s'" "groups_after ?r = param_groups s'"
    and rc: "counter_after ?r = counter s4" "stopped ?r = b"
    and cur: "cur_lr s' = cur_lr s4" "param_groups s' = param_groups s4"
    using k cs by (simp_all add: s' record_eval_def)
  have ch: "chain_ok (lr config) (optimizer config) (history s) (cur_lr s) (param_groups s)"
    and old: "\<forall>r\<in>set (history s). same_or_halved config r"
    using inv by (simp_all add: lr_inv_def)
  from cs have alt: "(cur_lr s4 = cur_lr s \<and> param_groups s4 = param_groups s)
          \<or> (\<not> b \<and> cur_lr s4 = cur_lr s / 2
              \<and> param_groups s4 = map (\<lambda>g. cur_lr s4) (param_groups s)
              \<and> 0 < counter s4 \<and> int (counter s4) mod patience_lr config = 0)"
    using k by auto
  have new: "same_or_halved config ?r"
    using alt by (auto simp: same_or_halved_def rb ra rc cur)
  have ch': "chain_ok (lr config) (optimizer config) (history s') (cur_lr s') (param_groups s')"
    using chain_ok_snoc [OF ch rb] h ra by simp
  have "set (history s') = insert ?r (set (history s))"
    by (subst h) simp
  then have all: "\<forall>r\<in>set (history s'). same_or_halved config r"
    using old new by simp
  show ?thesis using ch' all by (simp add: lr_inv_def)
qed

lemma run_epoch_lr_inv:
  "lr_inv config s \<Longrightarrow> lr_inv config (epoch_state (run_epoch config idxs s))"
proof (induction idxs arbitrary: s)
  case Nil
  then show ?case by simp
next
  case (Cons i rest)
  let ?s1 = "s\<lparr> loop_i := Some i, steps := steps s + 1 \<rparr>"
  have inv1: "lr_inv config ?s1" using Cons.prems by (simp add: lr_inv_def)
  show ?case
  proof (cases "eval_interval config \<noteq> 0 \<and> i mod eval_interval config = 0")
    case False
    then show ?thesis using inv1 Cons.IH [OF inv1] by (auto simp: Let_def)
  next
    case True
    show ?thesis
    proof (cases "evaluation config i ?s1")
      case (Inl e)
      then show ?thesis using True inv1 by (simp add: Let_def)
    next
      case (Inr p)
      obtain b s2 where p: "p = (b, s2)" by (cases p)
      have inv2: "lr_inv config s2" using evaluation_lr_inv [OF _ inv1] Inr p by simp
      show ?thesis using True Inr p inv2 Cons.IH [OF inv2] by (cases b) (simp_all add: Let_def)
    qed
  qed
qed

lemma train_loop_lr_inv:
  "lr_inv config s \<Longrightarrow> lr_inv config (final (train_loop fuel config s))"
proof (induction fuel arbitrary: s)
  case 0
  then show ?case by simp
next
  case (Suc fuel)
  let ?r = "run_epoch config (epoch_indices (start_index s) (train_data config)) s"
  have inv: "lr_inv config (epoch_state ?r)" using Suc.prems by (rule run_epoch_lr_inv)
  show ?case
  proof (cases ?r)
    case (Exhausted s')
    then have inv': "lr_inv config s'" using inv by simp
    then have "lr_inv config (s'\<lparr> start_index := j \<rparr>)" for j by (simp add: lr_inv_def)
    then show ?thesis using Exhausted inv' Suc.IH by (auto split: option.splits)
  next
    case (Broke s')
    then show ?thesis using inv by simp
  next
    case (Raised e s')
    then show ?thesis using inv by simp
  qed
qed

lemma init_lr_inv: "lr_inv config (init_locals config)"
  by (simp add: lr_inv_def init_locals_def)

lemma chain_ok_decreasing:
  "chain_ok l0 g0 h l g \<Longrightarrow> \<forall>r\<in>set h. same_or_halved config r \<Longrightarrow> 0 < l0 \<Longrightarrow>
     \<forall>r\<in>set h. decreasing r"
proof (induction h arbitrary: l0 g0)
  case Nil
  then show ?case by simp
next
  case (Cons r h)
  have b: "lr_before r = l0" and ch: "chain_ok (lr_after r) (groups_after r) h l g"
    using Cons.prems(1) by simp_all
  have sh: "same_or_halved config r" using Cons.prems(2) by simp
  have d: "decreasing r"
    using sh b Cons.prems(3) by (auto simp: same_or_halved_def decreasing_def)
  then have pos: "0 < lr_after r" by (simp add: decreasing_def)
  have "\<forall>r\<in>set h. decreasing r"
    using Cons.IH [OF ch _ pos] Cons.prems(2) by simp
  then show ?case using d by simp
qed

lemma decay_run:
  "map (\<lambda>r. (lr_before r, lr_after r, groups_before r, groups_after r, counter_after r, stopped r))
       (history (final (train_single_span 2 decay_config)))
     = [(1 / 10, 1 / 20, [1 / 100, 1 / 10], [1 / 20, 1 / 20], 1, False),
        (1 / 20, 1 / 40, [1 / 20, 1 / 20], [1 / 40, 1 / 40], 2, False),
        (1 / 40, 1 / 40, [1 / 40, 1 / 40], [1 / 40, 1 / 40], 3, True)]"
  by (simp add: train_single_span_def decay_config_def init_locals_def epoch_indices_def
        evaluation_def update_best_def check_stop_def record_eval_def Let_def numeral_eq_Suc upt_rec)

text \<open>
  Claim C4. At every point of every run of \<^verbatim>\<open>train_single_span\<close> and of
  \<^verbatim>\<open>train_two_span\<close> (after any number of epochs, finished or not) the recorded
  evaluations form a chain: the first one starts from \<^verbatim>\<open>config.lr\<close> and from the
  parameter groups of the optimizer, each later one from what the one before left, so
  nothing between two evaluations changes the learning rate. Every evaluation either leaves
  the learning rate \<^verbatim>\<open>lr\<close> and the parameter groups as they were, or it halves
  \<^verbatim>\<open>lr\<close> exactly and writes the halved value to every parameter group of the live
  optimizer, whatever the group held before; it halves only when it does not stop the
  training and the non-improvement counter is a positive multiple of \<^verbatim>\<open>patience_lr\<close>.
  When \<^verbatim>\<open>config.lr\<close> is positive, the learning rate stays positive and never rises, and
  each change of it is a strict decrease to exactly one half.
\<close>

theorem learning_rate_only_halves:
  "(let s = final (train_single_span fuel config)
    in chain_ok (lr config) (optimizer config) (history s) (cur_lr s) (param_groups s)
     \<and> (\<forall>r\<in>set (history s). same_or_halved config r)
     \<and> (0 < lr config \<longrightarrow> (\<forall>r\<in>set (history s). decreasing r)))
 \<and> (let s = final (train_two_span fuel config)
    in chain_ok (lr config) (optimizer config) (history s) (cur_lr s) (param_groups s)
     \<and> (\<forall>r\<in>set (history s). same_or_halved config r)
     \<and> (0 < lr config \<longrightarrow> (\<forall>r\<in>set (history s). decreasing r)))"
proof -
  let ?s = "final (train_loop fuel config (init_locals config))"
  have inv: "lr_inv config ?s" using init_lr_inv by (rule train_loop_lr_inv)
  then have ch: "chain_ok (lr config) (optimizer config) (history ?s) (cur_lr ?s) (param_groups ?s)"
    and sh: "\<forall>r\<in>set (history ?s). same_or_halved config r"
    by (simp_all add: lr_inv_def)
  have "0 < lr config \<longrightarrow> (\<forall>r\<in>set (history ?s). decreasing r)"
    using chain_ok_decreasing [OF ch sh] by blast
  then show ?thesis
    using ch sh by (simp add: Let_def train_single_span_def train_two_span_def)
qed

theorem learning_rate_only_halves_witness:
  "0 < lr decay_config
   \<and> chain_ok (lr decay_config) (optimizer decay_config)
        (history (final (train_single_span 2 decay_config)))
        (cur_lr (final (train_single_span 2 decay_config)))
        (param_groups (final (train_single_span 2 decay_config)))
   \<and> list_all (same_or_halved decay_config) (history (final (train_single_span 2 decay_config)))
   \<and> list_all decreasing (history (final (train_single_span 2 decay_config)))
   \<and> map (\<lambda>r. (lr_before r, lr_after r, groups_before r, groups_after r, counter_after r, stopped r))
        (history (final (train_single_span 2 decay_config)))
      = [(1 / 10, 1 / 20, [1 / 100, 1 / 10], [1 / 20, 1 / 20], 1, False),
         (1 / 20, 1 / 40, [1 / 20, 1 / 20], [1 / 40, 1 / 40], 2, False),
         (1 / 40, 1 / 40, [1 / 40, 1 / 40], [1 / 40, 1 / 40], 3, True)]"
proof -
  have h1: "0 < lr decay_config" by (simp add: decay_config_def)
  show ?thesis
    using learning_rate_only_halves [of 2 decay_config] h1 decay_run
    by (simp add: Let_def list_all_iff)
qed

lemma train_loop_Suc:
  "train_loop (Suc fuel) config s =
     resume fuel config (epoch_indices (start_index s) (train_data config)) s"
  by (simp add: resume_def after_epoch_def split: epoch_result.splits)

lemma epoch_indices_Suc: "epoch_indices a (Suc r) = a # epoch_indices (a + 1) r"
proof -
  have "[0..<Suc r] = 0 # map Suc [0..<r]"
    by (simp add: upt_conv_Cons map_Suc_upt del: upt_Suc)
  then show ?thesis
    by (simp add: epoch_indices_def comp_def add.assoc del: upt_Suc)
qed

lemma epoch_indices_0 [simp]: "epoch_indices a 0 = []"
  by (simp add: epoch_indices_def)

text \<open>Batches whose index is no multiple of the interval only count steps.\<close>

lemma run_epoch_skip:
  assumes "eval_interval config \<noteq> 0"
    and "\<forall>j<d. (a + int j) mod eval_interval config \<noteq> 0"
    and "0 < d"
  shows "run_epoch config (epoch_indices a (d + r)) s =
         run_epoch config (epoch_indices (a + int d) r)
           (s\<lparr> loop_i := Some (a + int d - 1), steps := steps s + d \<rparr>)"
  using assms(2,3)
proof (induction d arbitrary: a s)
  case 0
  then show ?case by simp
next
  case (Suc d)
  have nz: "a mod eval_interval config \<noteq> 0" using Suc.prems(1) [rule_format, of 0] by simp
  show ?case
  proof (cases "d = 0")
    case True
    then show ?thesis using nz assms(1) by (simp add: epoch_indices_Suc Let_def)
  next
    case False
    have "\<forall>j<d. (a + 1 + int j) mod eval_interval config \<noteq> 0"
      using Suc.prems(1) by (auto simp: add.assoc dest: spec [of _ "Suc _"])
    from Suc.IH [OF this, of "s\<lparr> loop_i := Some a, steps := steps s + 1 \<rparr>"] False
    show ?thesis using nz assms(1)
      by (simp add: epoch_indices_Suc Let_def add.assoc algebra_simps)
  qed
qed

text \<open>A batch whose index is a multiple of the interval evaluates.\<close>

lemma resume_eval:
  assumes "eval_interval config \<noteq> 0" and "a mod eval_interval config = 0"
  shows "resume fuel config (epoch_indices a (Suc r)) s =
         after_eval fuel config (epoch_indices (a + 1) r)
           (s\<lparr> loop_i := Some a, steps := steps s + 1 \<rparr>)
           (evaluation config a (s\<lparr> loop_i := Some a, steps := steps s + 1 \<rparr>))"
  using assms
  by (auto simp: resume_def after_eval_def epoch_indices_Suc Let_def after_epoch_def
        split: sum.splits bool.splits)

lemma gap_hit: "0 < E \<Longrightarrow> (a + int (gap E a)) mod E = 0"
  by (simp add: gap_def mod_add_right_eq)

lemma gap_lt: "0 < E \<Longrightarrow> int (gap E a) < E"
  by (simp add: gap_def)

lemma gap_miss:
  assumes "0 < E" and "j < gap E a"
  shows "(a + int j) mod E \<noteq> 0"
proof
  assume "(a + int j) mod E = 0"
  then have "E dvd a + int j" by (simp add: dvd_eq_mod_eq_0)
  then have "(- a) mod E = int j mod E"
    by (metis add.commute add.inverse_inverse diff_minus_eq_add mod_eq_dvd_iff dvd_minus_iff minus_diff_eq)
  moreover have "int j mod E = int j" using assms gap_lt [of E a] by simp
  ultimately show False using assms(2) by (simp add: gap_def)
qed

lemma gap_shift:
  assumes "0 < E" and "j \<le> gap E a"
  shows "gap E (a + int j) = gap E a - j"
proof -
  have "(- (a + int j)) mod E = ((- a) mod E - int j) mod E"
    by (simp add: mod_diff_left_eq)
  also have "\<dots> = (- a) mod E - int j"
  proof (rule mod_pos_pos_trivial)
    show "0 \<le> (- a) mod E - int j" using assms by (simp add: gap_def le_nat_iff)
    have "(- a) mod E < E" using assms(1) by simp
    then show "(- a) mod E - int j < E" by simp
  qed
  finally show ?thesis by (simp add: gap_def nat_diff_distrib')
qed

lemma gap_mod: "gap E (a mod E) = gap E a"
  by (simp add: gap_def mod_minus_eq)

lemma resume_skip_all:
  assumes "eval_interval config \<noteq> 0"
    and "\<forall>j<r. (a + int j) mod eval_interval config \<noteq> 0"
    and "0 < r"
  shows "resume (Suc fuel) config (epoch_indices a r) s =
         resume fuel config
           (epoch_indices ((a + int r - 1) mod eval_interval config) (train_data config))
           (s\<lparr> start_index := (a + int r - 1) mod eval_interval config,
               loop_i := Some (a + int r - 1), steps := steps s + r \<rparr>)"
proof -
  let ?s' = "s\<lparr> loop_i := Some (a + int r - 1), steps := steps s + r \<rparr>"
  have "run_epoch config (epoch_indices a r) s = Exhausted ?s'"
    using run_epoch_skip [OF assms, of 0 s] by simp
  then have "resume (Suc fuel) config (epoch_indices a r) s =
      train_loop (Suc fuel) config
        (?s'\<lparr> start_index := (a + int r - 1) mod eval_interval config \<rparr>)"
    using assms(1) by (simp add: resume_def after_epoch_def)
  also have "\<dots> = resume fuel config
           (epoch_indices ((a + int r - 1) mod eval_interval config) (train_data config))
           (?s'\<lparr> start_index := (a + int r - 1) mod eval_interval config \<rparr>)"
    by (simp only: train_loop_Suc) simp
  also have "?s'\<lparr> start_index := (a + int r - 1) mod eval_interval config \<rparr> =
      s\<lparr> start_index := (a + int r - 1) mod eval_interval config,
          loop_i := Some (a + int r - 1), steps := steps s + r \<rparr>"
    by (cases s) simp
  finally show ?thesis .
qed

lemma resume_skip_some:
  assumes "eval_interval config \<noteq> 0"
    and "\<forall>j<d. (a + int j) mod eval_interval config \<noteq> 0"
    and "0 < d"
  shows "resume fuel config (epoch_indices a (d + r)) s =
         resume fuel config (epoch_indices (a + int d) r)
           (s\<lparr> loop_i := Some (a + int d - 1), steps := steps s + d \<rparr>)"
  using run_epoch_skip [OF assms, of r s] by (simp add: resume_def)

lemma next_evaluation:
  assumes E: "0 < eval_interval config" and n: "2 \<le> train_data config"
    and r: "1 \<le> r" "r \<le> train_data config"
  shows "\<exists>k i r' st si. i mod eval_interval config = 0 \<and> r' < train_data config
           \<and> (\<forall>fuel. resume (fuel + k) config (epoch_indices a r) s =
                 after_eval fuel config (epoch_indices (i + 1) r')
                   (s\<lparr> start_index := si, loop_i := Some i, steps := st \<rparr>)
                   (evaluation config i (s\<lparr> start_index := si, loop_i := Some i, steps := st \<rparr>)))"
  using r
proof (induction "2 * gap (eval_interval config) a + (if r \<le> 1 then 1 else 0)"
        arbitrary: a r s rule: less_induct)
  case less
  let ?E = "eval_interval config"
  let ?d = "gap ?E a"
  have Enz: "?E \<noteq> 0" using E by simp
  show ?case
  proof (cases "?d < r")
    case True
    then obtain r0 where r0: "r = ?d + Suc r0"
      by (metis less_imp_Suc_add add_Suc_right)
    have r0n: "r0 < train_data config" using r0 less.prems by simp
    have hit: "(a + int ?d) mod ?E = 0" using E by (rule gap_hit)
    show ?thesis
    proof (cases "?d = 0")
      case True
      with hit have a0: "a mod ?E = 0" by simp
      have "\<forall>fuel. resume (fuel + 0) config (epoch_indices a r) s =
              after_eval fuel config (epoch_indices (a + 1) r0)
                (s\<lparr> start_index := start_index s, loop_i := Some a, steps := steps s + 1 \<rparr>)
                (evaluation config a (s\<lparr> start_index := start_index s, loop_i := Some a, steps := steps s + 1 \<rparr>))"
        using resume_eval [OF Enz a0, of _ r0 s] r0 True by simp
      with a0 r0n show ?thesis
        by (intro exI [of _ 0] exI [of _ a] exI [of _ r0] exI [of _ "steps s + 1"]
              exI [of _ "start_index s"]) simp
    next
      case False
      then have dpos: "0 < ?d" by simp
      have miss: "\<forall>j<?d. (a + int j) mod ?E \<noteq> 0" using gap_miss [OF E] by simp
      have "\<forall>fuel. resume (fuel + 0) config (epoch_indices a r) s =
              after_eval fuel config (epoch_indices (a + int ?d + 1) r0)
                (s\<lparr> start_index := start_index s, loop_i := Some (a + int ?d), steps := steps s + ?d + 1 \<rparr>)
                (evaluation config (a + int ?d)
                   (s\<lparr> start_index := start_index s, loop_i := Some (a + int ?d), steps := steps s + ?d + 1 \<rparr>))"
        using resume_skip_some [OF Enz miss dpos, of _ "Suc r0" s]
          resume_eval [OF Enz hit, of _ r0] r0 by simp
      with hit r0n show ?thesis
        by (intro exI [of _ 0] exI [of _ "a + int ?d"] exI [of _ r0]
              exI [of _ "steps s + ?d + 1"] exI [of _ "start_index s"]) simp
    qed
  next
    case False
    then have rd: "r \<le> ?d" by simp
    have rpos: "0 < r" using less.prems by simp
    have miss: "\<forall>j<r. (a + int j) mod ?E \<noteq> 0" using gap_miss [OF E] rd by simp
    let ?a' = "(a + int r - 1) mod ?E"
    let ?s' = "s\<lparr> start_index := ?a', loop_i := Some (a + int r - 1), steps := steps s + r \<rparr>"
    have step: "resume (Suc fuel) config (epoch_indices a r) s =
                resume fuel config (epoch_indices ?a' (train_data config)) ?s'" for fuel
      by (rule resume_skip_all [OF Enz miss rpos])
    have a1: "a + int r - 1 = a + int (r - 1)" using rpos by (simp add: of_nat_diff)
    have "gap ?E ?a' = gap ?E (a + int (r - 1))"
      by (simp only: gap_mod a1)
    also have "\<dots> = ?d - (r - 1)"
      by (rule gap_shift [OF E]) (use rd in simp)
    finally have d': "gap ?E ?a' = ?d - (r - 1)" .
    have "2 * gap ?E ?a' + (if train_data config \<le> 1 then 1 else 0)
            < 2 * ?d + (if r \<le> 1 then 1 else 0)"
      using d' rd rpos n by (auto split: if_splits)
    then have "\<exists>k i r' st si. i mod ?E = 0 \<and> r' < train_data config
           \<and> (\<forall>fuel. resume (fuel + k) config (epoch_indices ?a' (train_data config)) ?s' =
                 after_eval fuel config (epoch_indices (i + 1) r')
                   (?s'\<lparr> start_index := si, loop_i := Some i, steps := st \<rparr>)
                   (evaluation config i (?s'\<lparr> start_index := si, loop_i := Some i, steps := st \<rparr>)))"
    proof (rule less.hyps)
      show "1 \<le> train_data config" using n by simp
      show "train_data config \<le> train_data config" by simp
    qed
    then obtain k i r' st si where i: "i mod ?E = 0" and r': "r' < train_data config"
      and eq: "\<forall>fuel. resume (fuel + k) config (epoch_indices ?a' (train_data config)) ?s' =
                 after_eval fuel config (epoch_indices (i + 1) r')
                   (?s'\<lparr> start_index := si, loop_i := Some i, steps := st \<rparr>)
                   (evaluation config i (?s'\<lparr> start_index := si, loop_i := Some i, steps := st \<rparr>))"
      by (elim exE conjE)
    have upd: "?s'\<lparr> start_index := si, loop_i := Some i, steps := st \<rparr> =
               s\<lparr> start_index := si, loop_i := Some i, steps := st \<rparr>"
      by (cases s) simp
    have "\<forall>fuel. resume (fuel + Suc k) config (epoch_indices a r) s =
                 after_eval fuel config (epoch_indices (i + 1) r')
                   (s\<lparr> start_index := si, loop_i := Some i, steps := st \<rparr>)
                   (evaluation config i (s\<lparr> start_index := si, loop_i := Some i, steps := st \<rparr>))"
      using eq step unfolding upd by simp
    with i r' show ?thesis
      by (intro exI [of _ "Suc k"] exI [of _ i] exI [of _ r'] exI [of _ st] exI [of _ si]) simp
  qed
qed

lemma resume_rollover:
  assumes "eval_interval config \<noteq> 0" and "loop_i s = Some j"
  shows "resume (Suc fuel) config [] s =
         resume fuel config (epoch_indices (j mod eval_interval config) (train_data config))
           (s\<lparr> start_index := j mod eval_interval config \<rparr>)"
proof -
  have "resume (Suc fuel) config [] s =
        train_loop (Suc fuel) config (s\<lparr> start_index := j mod eval_interval config \<rparr>)"
    using assms by (simp add: resume_def after_epoch_def)
  then show ?thesis by (simp only: train_loop_Suc) simp
qed

lemma run_to_stop:
  fixes I Q :: "locals \<Rightarrow> bool" and bound :: "locals \<Rightarrow> nat"
  assumes E: "0 < eval_interval config" and n: "2 \<le> train_data config"
    and step: "\<And>s i. I s \<Longrightarrow>
        \<exists>b s2. evaluation config i s = Inr (b, s2) \<and> loop_i s2 = loop_i s
             \<and> (if b then Q s2 else I s2 \<and> bound s2 < bound s)"
    and stableI: "\<And>s si li st. I s \<Longrightarrow> I (s\<lparr> start_index := si, loop_i := li, steps := st \<rparr>)"
    and stableB: "\<And>s si li st.
        bound (s\<lparr> start_index := si, loop_i := li, steps := st \<rparr>) = bound s"
    and I: "I s" and r: "r \<le> train_data config"
    and li: "r = 0 \<Longrightarrow> loop_i s = Some (a - 1)"
  shows "\<exists>fuel s'. resume fuel config (epoch_indices a r) s = Finished s' \<and> Q s'"
  using I r li
proof (induction "bound s" arbitrary: a r s rule: less_induct)
  case less
  let ?E = "eval_interval config"
  have Enz: "?E \<noteq> 0" using E by simp
  have main: "\<exists>fuel s'. resume fuel config (epoch_indices a0 r0) s0 = Finished s' \<and> Q s'"
    if I0: "I s0" and b0: "bound s0 = bound s" and r0: "1 \<le> r0" "r0 \<le> train_data config"
    for a0 r0 s0
  proof -
    from next_evaluation [OF E n r0, of a0 s0]
    obtain k i r' st si where i: "i mod ?E = 0" and r': "r' < train_data config"
      and eq: "\<forall>fuel. resume (fuel + k) config (epoch_indices a0 r0) s0 =
                 after_eval fuel config (epoch_indices (i + 1) r')
                   (s0\<lparr> start_index := si, loop_i := Some i, steps := st \<rparr>)
                   (evaluation config i (s0\<lparr> start_index := si, loop_i := Some i, steps := st \<rparr>))"
      by (elim exE conjE)
    let ?s1 = "s0\<lparr> start_index := si, loop_i := Some i, steps := st \<rparr>"
    have I1: "I ?s1" using I0 by (rule stableI)
    have b1: "bound ?s1 = bound s" using b0 by (simp add: stableB)
    from step [OF I1, of i] obtain b s2 where ev: "evaluation config i ?s1 = Inr (b, s2)"
      and l2: "loop_i s2 = loop_i ?s1"
      and alt: "if b then Q s2 else I s2 \<and> bound s2 < bound ?s1"
      by (elim exE conjE)
    show ?thesis
    proof (cases b)
      case True
      have "resume (0 + k) config (epoch_indices a0 r0) s0 = Finished s2"
        using eq [rule_format, of 0] ev True by (simp add: after_eval_def)
      with alt True show ?thesis by auto
    next
      case False
      have I2: "I s2" and lt: "bound s2 < bound s" using alt False b1 by auto
      have l2': "r' = 0 \<Longrightarrow> loop_i s2 = Some (i + 1 - 1)" using l2 by simp
      from less.hyps [OF lt I2 _ l2', of r'] r'
      obtain fuel s' where fin: "resume fuel config (epoch_indices (i + 1) r') s2 = Finished s'"
        and q: "Q s'" by auto
      have "resume (fuel + k) config (epoch_indices a0 r0) s0 = Finished s'"
        using eq [rule_format, of fuel] ev False fin by (simp add: after_eval_def)
      with q show ?thesis by blast
    qed
  qed
  show ?case
  proof (cases "r = 0")
    case False
    then show ?thesis using main [OF less.prems(1) refl _ less.prems(2)] by simp
  next
    case True
    then have l: "loop_i s = Some (a - 1)" by (rule less.prems(3))
    let ?a' = "(a - 1) mod ?E"
    let ?s0 = "s\<lparr> start_index := ?a' \<rparr>"
    have "?s0 = s\<lparr> start_index := ?a', loop_i := loop_i s, steps := steps s \<rparr>" by simp
    then have I0: "I ?s0" and b0: "bound ?s0 = bound s"
      using stableI [OF less.prems(1), where si = ?a' and li = "loop_i s" and st = "steps s"]
        stableB [where s = s and si = ?a' and li = "loop_i s" and st = "steps s"] by simp_all
    from main [OF I0 b0, of "train_data config" ?a'] n
    obtain fuel s' where fin: "resume fuel config (epoch_indices ?a' (train_data config)) ?s0 = Finished s'"
      and q: "Q s'" by auto
    have "resume (Suc fuel) config (epoch_indices a r) s = Finished s'"
      using resume_rollover [OF Enz l, of fuel] fin True by simp
    with q show ?thesis by blast
  qed
qed

lemma update_best_stalled:
  assumes "stalled config s" and "never_improves config"
  shows "\<exists>s3. update_best (val_loss config (evals s)) s = Inr s3
           \<and> evals s3 = evals s + 1 \<and> counter s3 = evals s + 1
           \<and> min_loss s3 = Some (val_loss config 0) \<and> loop_i s3 = loop_i s"
proof (cases "evals s = 0")
  case True
  then show ?thesis using assms by (simp add: update_best_def Let_def stalled_def)
next
  case False
  then have m: "min_loss s = Some (val_loss config 0)" using assms(1) by (simp add: stalled_def)
  have "\<not> val_loss config (evals s) < val_loss config 0"
    using assms(2) by (simp add: never_improves_def not_less)
  then show ?thesis using False m assms(1) by (simp add: update_best_def Let_def stalled_def)
qed

lemma check_stop_fields:
  assumes "check_stop config s = Inr (b, s4)"
  shows "evals s4 = evals s" "counter s4 = counter s" "min_loss s4 = min_loss s"
    "loop_i s4 = loop_i s"
  using assms by (auto simp: check_stop_def split: if_splits)

lemma check_stop_decides:
  assumes "patience_lr config \<noteq> 0"
  shows "\<exists>s4. check_stop config s =
           Inr ((case max_evals config of None \<Rightarrow> False | Some me \<Rightarrow> me \<le> int (evals s))
                  \<or> patience config \<le> int (counter s), s4)"
  using assms by (simp add: check_stop_def)

lemma record_eval_fields [simp]:
  "evals (record_eval i l before stop s) = evals s"
  "counter (record_eval i l before stop s) = counter s"
  "min_loss (record_eval i l before stop s) = min_loss s"
  "loop_i (record_eval i l before stop s) = loop_i s"
  "cur_lr (record_eval i l before stop s) = cur_lr s"
  "param_groups (record_eval i l before stop s) = param_groups s"
  "steps (record_eval i l before stop s) = steps s"
  "start_index (record_eval i l before stop s) = start_index s"
  by (simp_all add: record_eval_def)

lemma evaluation_stalled:
  assumes st: "stalled config s" and nev: "never_improves config"
    and plr: "patience_lr config \<noteq> 0" and p: "1 \<le> patience config"
    and me: "case max_evals config of None \<Rightarrow> True | Some m \<Rightarrow> 1 \<le> m"
  shows "\<exists>b s2. evaluation config i s = Inr (b, s2) \<and> loop_i s2 = loop_i s
           \<and> (if b then evals s2 = stop_eval config \<and> counter s2 = stop_eval config
               else stalled config s2 \<and> stop_eval config - evals s2 < stop_eval config - evals s)"
proof -
  from update_best_stalled [OF st nev] obtain s3
    where u: "update_best (val_loss config (evals s)) s = Inr s3"
      and e3: "evals s3 = evals s + 1" and c3: "counter s3 = evals s + 1"
      and m3: "min_loss s3 = Some (val_loss config 0)" and l3: "loop_i s3 = loop_i s"
    by (elim exE conjE)
  let ?b = "(case max_evals config of None \<Rightarrow> False | Some me \<Rightarrow> me \<le> int (evals s3))
              \<or> patience config \<le> int (counter s3)"
  from check_stop_decides [OF plr, of s3] obtain s4
    where c: "check_stop config s3 = Inr (?b, s4)" by (elim exE)
  note f = check_stop_fields [OF c]
  have lt: "evals s < stop_eval config" using st by (simp add: stalled_def)
  have b_iff: "?b \<longleftrightarrow> evals s + 1 = stop_eval config"
    using lt p me e3 c3 by (auto simp: stop_eval_def split: option.splits)
  have ev: "evaluation config i s =
      Inr (?b, record_eval i (val_loss config (evals s)) s ?b s4)"
    by (simp add: evaluation_def Let_def u c)
  let ?s2 = "record_eval i (val_loss config (evals s)) s ?b s4"
  have "if ?b then evals ?s2 = stop_eval config \<and> counter ?s2 = stop_eval config
        else stalled config ?s2 \<and> stop_eval config - evals ?s2 < stop_eval config - evals s"
  proof (cases ?b)
    case True
    then have "evals s + 1 = stop_eval config" using b_iff by simp
    then show ?thesis using True f e3 c3 by simp
  next
    case False
    then have "evals s + 1 \<noteq> stop_eval config" using b_iff by simp
    then have "evals s + 1 < stop_eval config" using lt by simp
    then have "stalled config ?s2" using f e3 c3 m3 by (simp add: stalled_def)
    then show ?thesis using False f e3 lt by simp
  qed
  moreover have "loop_i ?s2 = loop_i s" using f l3 by simp
  ultimately show ?thesis using ev by blast
qed





lemma evaluation_history:
  assumes "evaluation config i s = Inr (b, s2)"
  shows "\<exists>r. history s2 = history s @ [r] \<and> eval_no r = evals s2
           \<and> counter_after r = counter s2 \<and> at_step r = steps s \<and> at_index r = i
           \<and> stopped r = b \<and> steps s2 = steps s"
proof -
  from assms obtain s3 s4 where u: "update_best (val_loss config (evals s)) s = Inr s3"
    and c: "check_stop config s3 = Inr (b, s4)"
    and s2: "s2 = record_eval i (val_loss config (evals s)) s b s4"
    by (auto simp: evaluation_def Let_def split: sum.splits prod.splits)
  note k = update_best_keeps [OF u]
  note cs = check_stop_cases [OF c]
  show ?thesis using k cs by (simp add: s2 record_eval_def)
qed

lemma evaluation_stalled_hist:
  assumes st: "stalled_hist config s" and nev: "never_improves config"
    and plr: "patience_lr config \<noteq> 0" and p: "1 \<le> patience config"
    and me: "case max_evals config of None \<Rightarrow> True | Some m \<Rightarrow> 1 \<le> m"
  shows "\<exists>b s2. evaluation config i s = Inr (b, s2) \<and> loop_i s2 = loop_i s
           \<and> (if b then evals s2 = stop_eval config \<and> counter s2 = stop_eval config
                      \<and> map counter_after (history s2) = [1..<stop_eval config + 1]
               else stalled_hist config s2
                  \<and> stop_eval config - evals s2 < stop_eval config - evals s)"
proof -
  have st': "stalled config s" and h: "map counter_after (history s) = [1..<evals s + 1]"
    using st by (simp_all add: stalled_hist_def)
  from evaluation_stalled [OF st' nev plr p me, of i]
  obtain b s2 where ev: "evaluation config i s = Inr (b, s2)" and l: "loop_i s2 = loop_i s"
    and alt: "if b then evals s2 = stop_eval config \<and> counter s2 = stop_eval config
               else stalled config s2 \<and> stop_eval config - evals s2 < stop_eval config - evals s"
    by (elim exE conjE)
  from evaluation_history [OF ev] obtain r where hr: "history s2 = history s @ [r]"
    and cr: "counter_after r = counter s2" by (elim exE conjE)
  have e2: "evals s2 = evals s + 1"
    using ev by (auto simp: evaluation_def Let_def split: sum.splits prod.splits
        dest!: update_best_keeps check_stop_fields(1))
  have c2: "counter s2 = evals s2"
    using alt by (cases b) (simp_all add: stalled_def)
  have h2: "map counter_after (history s2) = [1..<evals s2 + 1]"
    using hr cr c2 e2 h by simp
  have "if b then evals s2 = stop_eval config \<and> counter s2 = stop_eval config
                      \<and> map counter_after (history s2) = [1..<stop_eval config + 1]
               else stalled_hist config s2
                  \<and> stop_eval config - evals s2 < stop_eval config - evals s"
    using alt h2 by (cases b) (simp_all add: stalled_hist_def)
  with ev l show ?thesis by blast
qed

lemma stalled_run_history:
  assumes E: "0 < eval_interval config" and n: "2 \<le> train_data config"
    and nev: "never_improves config"
    and plr: "patience_lr config \<noteq> 0" and p: "1 \<le> patience config"
    and me: "case max_evals config of None \<Rightarrow> True | Some m \<Rightarrow> 1 \<le> m"
  shows "\<exists>fuel s'. train_loop fuel config (init_locals config) = Finished s'
           \<and> evals s' = stop_eval config \<and> counter s' = stop_eval config
           \<and> map counter_after (history s') = [1..<stop_eval config + 1]"
proof -
  have pos: "0 < stop_eval config"
    using p me by (auto simp: stop_eval_def split: option.splits)
  have I0: "stalled_hist config (init_locals config)"
    using pos by (simp add: stalled_hist_def stalled_def init_locals_def)
  have "\<exists>fuel s'. resume fuel config (epoch_indices 1 (train_data config)) (init_locals config)
            = Finished s' \<and> (evals s' = stop_eval config \<and> counter s' = stop_eval config
                \<and> map counter_after (history s') = [1..<stop_eval config + 1])"
  proof (rule run_to_stop [where I = "stalled_hist config"
        and bound = "\<lambda>s. stop_eval config - evals s", OF E n])
    show "\<exists>b s2. evaluation config i s = Inr (b, s2) \<and> loop_i s2 = loop_i s
            \<and> (if b then evals s2 = stop_eval config \<and> counter s2 = stop_eval config
                      \<and> map counter_after (history s2) = [1..<stop_eval config + 1]
                else stalled_hist config s2
                   \<and> stop_eval config - evals s2 < stop_eval config - evals s)"
      if "stalled_hist config s" for s i
      using that nev plr p me by (rule evaluation_stalled_hist)
    show "stalled_hist config (s\<lparr> start_index := si, loop_i := li, steps := st \<rparr>)"
      if "stalled_hist config s" for s si li st
      using that by (simp add: stalled_hist_def stalled_def)
    show "stop_eval config - evals (s\<lparr> start_index := si, loop_i := li, steps := st \<rparr>)
            = stop_eval config - evals s" for s si li st
      by simp
    show "stalled_hist config (init_locals config)" by (rule I0)
    show "train_data config \<le> train_data config" by simp
    show "loop_i (init_locals config) = Some (1 - 1)" if "train_data config = 0"
      using that n by simp
  qed
  then obtain fuel s' where
    "resume fuel config (epoch_indices 1 (train_data config)) (init_locals config) = Finished s'"
    and q: "evals s' = stop_eval config \<and> counter s' = stop_eval config
                \<and> map counter_after (history s') = [1..<stop_eval config + 1]"
    by (elim exE conjE) blast
  then have "train_loop (Suc fuel) config (init_locals config) = Finished s'"
    by (simp only: train_loop_Suc) (simp add: init_locals_def)
  with q show ?thesis by blast
qed

lemma run_epoch_invariant:
  assumes ev: "\<And>i s b s'. P s \<Longrightarrow> evaluation config i s = Inr (b, s') \<Longrightarrow> P s'"
    and batch: "\<And>s i. P s \<Longrightarrow> P (s\<lparr> loop_i := Some i, steps := steps s + 1 \<rparr>)"
  shows "P s \<Longrightarrow> P (epoch_state (run_epoch config idxs s))"
proof (induction idxs arbitrary: s)
  case Nil
  then show ?case by simp
next
  case (Cons i rest)
  let ?s1 = "s\<lparr> loop_i := Some i, steps := steps s + 1 \<rparr>"
  have inv1: "P ?s1" using Cons.prems by (rule batch)
  show ?case
  proof (cases "eval_interval config \<noteq> 0 \<and> i mod eval_interval config = 0")
    case False
    then show ?thesis using inv1 Cons.IH [OF inv1] by (auto simp: Let_def)
  next
    case True
    show ?thesis
    proof (cases "evaluation config i ?s1")
      case (Inl e)
      then show ?thesis using True inv1 by (simp add: Let_def)
    next
      case (Inr p)
      obtain b s2 where p: "p = (b, s2)" by (cases p)
      have inv2: "P s2" using ev [OF inv1] Inr p by simp
      show ?thesis using True Inr p inv2 Cons.IH [OF inv2] by (cases b) (simp_all add: Let_def)
    qed
  qed
qed

lemma train_loop_invariant:
  assumes ev: "\<And>i s b s'. P s \<Longrightarrow> evaluation config i s = Inr (b, s') \<Longrightarrow> P s'"
    and batch: "\<And>s i. P s \<Longrightarrow> P (s\<lparr> loop_i := Some i, steps := steps s + 1 \<rparr>)"
    and start: "\<And>s j. P s \<Longrightarrow> P (s\<lparr> start_index := j \<rparr>)"
  shows "P s \<Longrightarrow> P (final (train_loop fuel config s))"
proof (induction fuel arbitrary: s)
  case 0
  then show ?case by simp
next
  case (Suc fuel)
  let ?r = "run_epoch config (epoch_indices (start_index s) (train_data config)) s"
  have inv: "P (epoch_state ?r)" using ev batch Suc.prems by (rule run_epoch_invariant)
  show ?case
  proof (cases ?r)
    case (Exhausted s')
    then have inv': "P s'" using inv by simp
    then have "P (s'\<lparr> start_index := j \<rparr>)" for j by (rule start)
    then show ?thesis using Exhausted inv' Suc.IH by (auto split: option.splits)
  next
    case (Broke s')
    then show ?thesis using inv by simp
  next
    case (Raised e s')
    then show ?thesis using inv by simp
  qed
qed

lemma update_best_first:
  assumes "evals s = 0" and "update_best l s = Inr s3"
  shows "evals s3 = 1 \<and> counter s3 = counter s + 1 \<and> min_loss s3 = Some l"
  using assms by (auto simp: update_best_def Let_def)

lemma evaluation_first:
  assumes e0: "evals s = 0" and ev: "evaluation config i s = Inr (b, s')"
  shows "evals s' = 1 \<and> counter s' = counter s + 1 \<and> min_loss s' = Some (val_loss config 0)"
proof -
  from ev obtain s3 s4 where u: "update_best (val_loss config (evals s)) s = Inr s3"
    and c: "check_stop config s3 = Inr (b, s4)"
    and s': "s' = record_eval i (val_loss config (evals s)) s b s4"
    by (auto simp: evaluation_def Let_def split: sum.splits prod.splits)
  from update_best_first [OF e0 u] check_stop_fields [OF c] e0
  show ?thesis by (simp add: s')
qed

lemma evaluation_first_eval_inv:
  assumes inv: "first_eval_inv s" and ev: "evaluation config i s = Inr (b, s')"
  shows "first_eval_inv s'"
proof -
  from evaluation_history [OF ev] obtain r where h: "history s' = history s @ [r]"
    and er: "eval_no r = evals s'" and cr: "counter_after r = counter s'"
    by (elim exE conjE)
  have e': "evals s' = evals s + 1"
    using ev by (auto simp: evaluation_def Let_def split: sum.splits prod.splits
        dest!: update_best_keeps check_stop_fields(1))
  show ?thesis
  proof (cases "history s = []")
    case True
    then have "evals s = 0" "counter s = 0" using inv by (simp_all add: first_eval_inv_def)
    with evaluation_first [OF _ ev] h er cr True show ?thesis
      by (simp add: first_eval_inv_def)
  next
    case False
    then show ?thesis using inv h e' by (simp add: first_eval_inv_def)
  qed
qed

lemma first_eval_inv_run:
  "first_eval_inv (final (train_loop fuel config (init_locals config)))"
proof (rule train_loop_invariant)
  show "first_eval_inv s'" if "first_eval_inv s" "evaluation config i s = Inr (b, s')"
    for i s b s' using that by (rule evaluation_first_eval_inv)
  show "first_eval_inv (s\<lparr> loop_i := Some i, steps := steps s + 1 \<rparr>)" if "first_eval_inv s"
    for s i using that by (simp add: first_eval_inv_def)
  show "first_eval_inv (s\<lparr> start_index := j \<rparr>)" if "first_eval_inv s"
    for s j using that by (simp add: first_eval_inv_def)
  show "first_eval_inv (init_locals config)"
    by (simp add: first_eval_inv_def init_locals_def)
qed

lemma update_best_all_counted:
  assumes c: "counter s = evals s" and m: "0 < evals s \<longrightarrow> min_loss s = Some (val_loss config 0)"
    and nev: "never_improves config"
    and u: "update_best (val_loss config (evals s)) s = Inr s3"
  shows "counter s3 = evals s3 \<and> min_loss s3 = Some (val_loss config 0)"
proof (cases "evals s = 0")
  case True
  then show ?thesis using c u by (auto simp: update_best_def Let_def)
next
  case False
  then have m': "min_loss s = Some (val_loss config 0)" using m by simp
  have "\<not> val_loss config (evals s) < val_loss config 0"
    using nev by (simp add: never_improves_def not_less)
  then show ?thesis using False m' c u by (auto simp: update_best_def Let_def)
qed

lemma evaluation_all_counted:
  assumes inv: "all_counted config s" and nev: "never_improves config"
    and ev: "evaluation config i s = Inr (b, s')"
  shows "all_counted config s'"
proof -
  from ev obtain s3 s4 where u: "update_best (val_loss config (evals s)) s = Inr s3"
    and c: "check_stop config s3 = Inr (b, s4)"
    and s': "s' = record_eval i (val_loss config (evals s)) s b s4"
    by (auto simp: evaluation_def Let_def split: sum.splits prod.splits)
  have i1: "counter s = evals s" and i2: "0 < evals s \<longrightarrow> min_loss s = Some (val_loss config 0)"
    and i3: "\<forall>r\<in>set (history s). counter_after r = eval_no r"
    using inv by (simp_all add: all_counted_def)
  note a = update_best_all_counted [OF i1 i2 nev u]
  note f = check_stop_fields [OF c]
  from evaluation_history [OF ev] obtain r where h: "history s' = history s @ [r]"
    and er: "eval_no r = evals s'" and cr: "counter_after r = counter s'"
    by (elim exE conjE)
  have ce: "counter s' = evals s'" and ms: "min_loss s' = Some (val_loss config 0)"
    using a f by (simp_all add: s')
  have "\<forall>r\<in>set (history s'). counter_after r = eval_no r"
    using i3 er cr ce by (simp add: h)
  then show ?thesis using ce ms by (simp add: all_counted_def)
qed

lemma never_improving_counts:
  assumes nev: "never_improves config"
  shows "all_counted config (final (train_loop fuel config (init_locals config)))"
proof (rule train_loop_invariant)
  show "all_counted config s'" if "all_counted config s" "evaluation config i s = Inr (b, s')"
    for i s b s' using that(1) nev that(2) by (rule evaluation_all_counted)
  show "all_counted config (s\<lparr> loop_i := Some i, steps := steps s + 1 \<rparr>)" if "all_counted config s"
    for s i using that by (simp add: all_counted_def)
  show "all_counted config (s\<lparr> start_index := j \<rparr>)" if "all_counted config s"
    for s j using that by (simp add: all_counted_def)
  show "all_counted config (init_locals config)"
    by (simp add: all_counted_def init_locals_def)
qed

text \<open>
  Claim C9. The first evaluation never counts as an improvement: an evaluation that runs
  with \<^verbatim>\<open>eval = 0\<close> and \<^verbatim>\<open>counter = 0\<close> binds \<^verbatim>\<open>min_loss\<close> to its own loss, the strict
  comparison \<^verbatim>\<open>loss < min_loss\<close> fails, and it leaves \<^verbatim>\<open>eval = 1\<close> and
  \<^verbatim>\<open>counter = 1\<close>; so in every run of \<^verbatim>\<open>train_single_span\<close> and of
  \<^verbatim>\<open>train_two_span\<close> that has evaluated at all, the first recorded evaluation has number
  1 and leaves the counter at 1. When the validation loss never falls below the first one,
  every evaluation of every run leaves the counter equal to its own number, so the counter
  has reached \<^verbatim>\<open>patience\<close> exactly when the number of the evaluation has. If moreover
  evaluations keep coming (a positive \<^verbatim>\<open>eval_interval\<close>, at least two batches per epoch,
  \<^verbatim>\<open>patience_lr\<close> not zero), \<^verbatim>\<open>patience\<close> is at least 1 and \<^verbatim>\<open>max_evals\<close> is
  unset, the run ends at evaluation number \<^verbatim>\<open>patience\<close>, the first one included, with the
  counter having gone through \<open>1, 2, \<dots>, patience\<close>.
\<close>

theorem first_evaluation_is_no_improvement:
  "(evals s0 = 0 \<longrightarrow> counter s0 = 0 \<longrightarrow> evaluation config i s0 = Inr (b, s1) \<longrightarrow>
      evals s1 = 1 \<and> counter s1 = 1 \<and> min_loss s1 = Some (val_loss config 0))
 \<and> (history (final (train_single_span fuel config)) \<noteq> [] \<longrightarrow>
      eval_no (hd (history (final (train_single_span fuel config)))) = 1
    \<and> counter_after (hd (history (final (train_single_span fuel config)))) = 1)
 \<and> (history (final (train_two_span fuel config)) \<noteq> [] \<longrightarrow>
      eval_no (hd (history (final (train_two_span fuel config)))) = 1
    \<and> counter_after (hd (history (final (train_two_span fuel config)))) = 1)
 \<and> (never_improves config \<longrightarrow>
      (\<forall>r\<in>set (history (final (train_single_span fuel config))).
          counter_after r = eval_no r
        \<and> (patience config \<le> int (counter_after r) \<longleftrightarrow> patience config \<le> int (eval_no r)))
    \<and> (\<forall>r\<in>set (history (final (train_two_span fuel config))).
          counter_after r = eval_no r
        \<and> (patience config \<le> int (counter_after r) \<longleftrightarrow> patience config \<le> int (eval_no r))))
 \<and> (0 < eval_interval config \<longrightarrow> 2 \<le> train_data config \<longrightarrow> patience_lr config \<noteq> 0 \<longrightarrow>
    1 \<le> patience config \<longrightarrow> max_evals config = None \<longrightarrow> never_improves config \<longrightarrow>
      (\<exists>fuel' s'. train_single_span fuel' config = Finished s'
          \<and> evals s' = nat (patience config) \<and> counter s' = nat (patience config)
          \<and> map counter_after (history s') = [1..<nat (patience config) + 1])
    \<and> (\<exists>fuel' s'. train_two_span fuel' config = Finished s'
          \<and> evals s' = nat (patience config) \<and> counter s' = nat (patience config)
          \<and> map counter_after (history s') = [1..<nat (patience config) + 1]))"
proof (intro conjI impI)
  assume "evals s0 = 0" "counter s0 = 0" "evaluation config i s0 = Inr (b, s1)"
  then show "evals s1 = 1" "counter s1 = 1" "min_loss s1 = Some (val_loss config 0)"
    using evaluation_first [of s0 config i b s1] by simp_all
next
  assume "history (final (train_single_span fuel config)) \<noteq> []"
  then show "eval_no (hd (history (final (train_single_span fuel config)))) = 1"
    and "counter_after (hd (history (final (train_single_span fuel config)))) = 1"
    using first_eval_inv_run [of fuel config]
    by (simp_all add: first_eval_inv_def train_single_span_def)
next
  assume "history (final (train_two_span fuel config)) \<noteq> []"
  then show "eval_no (hd (history (final (train_two_span fuel config)))) = 1"
    and "counter_after (hd (history (final (train_two_span fuel config)))) = 1"
    using first_eval_inv_run [of fuel config]
    by (simp_all add: first_eval_inv_def train_two_span_def)
next
  assume nev: "never_improves config"
  from never_improving_counts [OF nev, of fuel]
  show "\<forall>r\<in>set (history (final (train_single_span fuel config))).
          counter_after r = eval_no r
        \<and> (patience config \<le> int (counter_after r) \<longleftrightarrow> patience config \<le> int (eval_no r))"
    and "\<forall>r\<in>set (history (final (train_two_span fuel config))).
          counter_after r = eval_no r
        \<and> (patience config \<le> int (counter_after r) \<longleftrightarrow> patience config \<le> int (eval_no r))"
    by (simp_all add: all_counted_def train_single_span_def train_two_span_def)
next
  assume a: "0 < eval_interval config" "2 \<le> train_data config" "patience_lr config \<noteq> 0"
    "1 \<le> patience config" "max_evals config = None" "never_improves config"
  have T: "stop_eval config = nat (patience config)" using a(5) by (simp add: stop_eval_def)
  have me: "case max_evals config of None \<Rightarrow> True | Some m \<Rightarrow> 1 \<le> m" using a(5) by simp
  from stalled_run_history [OF a(1,2,6,3,4) me]
  show "\<exists>fuel' s'. train_single_span fuel' config = Finished s'
          \<and> evals s' = nat (patience config) \<and> counter s' = nat (patience config)
          \<and> map counter_after (history s') = [1..<nat (patience config) + 1]"
    and "\<exists>fuel' s'. train_two_span fuel' config = Finished s'
          \<and> evals s' = nat (patience config) \<and> counter s' = nat (patience config)
          \<and> map counter_after (history s') = [1..<nat (patience config) + 1]"
    by (simp_all add: T train_single_span_def train_two_span_def)
qed

lemma patience_run:
  "train_single_span 2 patience_config
        = Finished (final (train_single_span 2 patience_config))
   \<and> map (\<lambda>r. (eval_no r, counter_after r, stopped r))
        (history (final (train_single_span 2 patience_config)))
       = [(1, 1, False), (2, 2, False), (3, 3, True)]"
  by (simp add: train_single_span_def patience_config_def init_locals_def epoch_indices_def
        evaluation_def update_best_def check_stop_def record_eval_def Let_def numeral_eq_Suc upt_rec)

lemma patience_first:
  "evals (init_locals patience_config) = 0 \<and> counter (init_locals patience_config) = 0
   \<and> (\<exists>b s1. evaluation patience_config 1 (init_locals patience_config) = Inr (b, s1))"
  by (auto simp: patience_config_def init_locals_def
        evaluation_def update_best_def check_stop_def record_eval_def Let_def)

theorem first_evaluation_is_no_improvement_witness:
  "0 < eval_interval patience_config \<and> 2 \<le> train_data patience_config
   \<and> patience_lr patience_config \<noteq> 0 \<and> 1 \<le> patience patience_config
   \<and> max_evals patience_config = None \<and> never_improves patience_config
   \<and> (\<exists>b s1. evaluation patience_config 1 (init_locals patience_config) = Inr (b, s1)
          \<and> evals s1 = 1 \<and> counter s1 = 1 \<and> min_loss s1 = Some (val_loss patience_config 0))
   \<and> history (final (train_single_span 2 patience_config)) \<noteq> []
   \<and> eval_no (hd (history (final (train_single_span 2 patience_config)))) = 1
   \<and> counter_after (hd (history (final (train_single_span 2 patience_config)))) = 1
   \<and> list_all (\<lambda>r. counter_after r = eval_no r)
        (history (final (train_single_span 2 patience_config)))
   \<and> (\<exists>fuel' s'. train_single_span fuel' patience_config = Finished s'
          \<and> evals s' = 3 \<and> counter s' = 3 \<and> map counter_after (history s') = [1, 2, 3])
   \<and> train_single_span 2 patience_config
        = Finished (final (train_single_span 2 patience_config))
   \<and> map (\<lambda>r. (eval_no r, counter_after r, stopped r))
        (history (final (train_single_span 2 patience_config)))
       = [(1, 1, False), (2, 2, False), (3, 3, True)]"
proof -
  have h: "0 < eval_interval patience_config" "2 \<le> train_data patience_config"
    "patience_lr patience_config \<noteq> 0" "1 \<le> patience patience_config"
    "max_evals patience_config = None" "never_improves patience_config"
    by (simp_all add: patience_config_def never_improves_def)
  have p: "nat (patience patience_config) = 3" by (simp add: patience_config_def)
  have ne: "history (final (train_single_span 2 patience_config)) \<noteq> []"
    using patience_run by auto
  have u': "[Suc 0..<4] = [Suc 0, 2, 3]" by (simp add: upt_rec)
  note T = first_evaluation_is_no_improvement [where config = patience_config and fuel = 2]
  from T [THEN conjunct2, THEN conjunct1, rule_format, OF ne]
  have first: "eval_no (hd (history (final (train_single_span 2 patience_config)))) = 1
     \<and> counter_after (hd (history (final (train_single_span 2 patience_config)))) = 1" .
  from T [THEN conjunct2, THEN conjunct2, THEN conjunct2, THEN conjunct1, rule_format, OF h(6),
          THEN conjunct1]
  have cnt: "list_all (\<lambda>r. counter_after r = eval_no r)
        (history (final (train_single_span 2 patience_config)))"
    by (simp add: list_all_iff)
  from T [THEN conjunct2, THEN conjunct2, THEN conjunct2, THEN conjunct2,
          rule_format, OF h, THEN conjunct1]
  have "\<exists>fuel' s'. train_single_span fuel' patience_config = Finished s'
          \<and> evals s' = 3 \<and> counter s' = 3 \<and> map counter_after (history s') = [1, 2, 3]"
    by (simp add: p u')
  moreover have "\<exists>b s1. evaluation patience_config 1 (init_locals patience_config) = Inr (b, s1)
          \<and> evals s1 = 1 \<and> counter s1 = 1 \<and> min_loss s1 = Some (val_loss patience_config 0)"
  proof -
    from patience_first obtain b s1
      where e: "evaluation patience_config 1 (init_locals patience_config) = Inr (b, s1)"
        and z: "evals (init_locals patience_config) = 0" "counter (init_locals patience_config) = 0"
      by (elim exE conjE)
    from first_evaluation_is_no_improvement [THEN conjunct1, rule_format, OF z e] e
    show ?thesis by blast
  qed
  ultimately show ?thesis using h ne first cnt patience_run by simp
qed

lemmas run_simps = init_locals_def epoch_indices_def
        evaluation_def update_best_def check_stop_def record_eval_def Let_def numeral_eq_Suc upt_rec

lemma interval_run:
  "map (\<lambda>r. (at_step r, at_index r)) (history (final (train_loop 2 interval_config (init_locals interval_config))))
      = [(2, 2), (5, 2)]
   \<and> train_loop 2 interval_config (init_locals interval_config)
      = Finished (final (train_loop 2 interval_config (init_locals interval_config)))"
  by (simp add: interval_config_def run_simps)



lemma idle_loop:
  "start_index s = 1 \<Longrightarrow>
     \<exists>s'. train_loop fuel idle_config s = OutOfFuel s' \<and> evals s' = evals s
        \<and> history s' = history s \<and> steps s' = steps s + fuel"
proof (induction fuel arbitrary: s)
  case 0
  then show ?case by simp
next
  case (Suc fuel)
  let ?s1 = "s\<lparr> loop_i := Some 1, steps := steps s + 1, start_index := 1 \<rparr>"
  have "train_loop (Suc fuel) idle_config s = train_loop fuel idle_config ?s1"
    using Suc.prems by (simp add: idle_config_def epoch_indices_def Let_def)
  moreover have "start_index ?s1 = 1" by simp
  from Suc.IH [OF this] obtain s' where "train_loop fuel idle_config ?s1 = OutOfFuel s'"
    "evals s' = evals s" "history s' = history s" "steps s' = steps s + Suc fuel"
    by auto
  ultimately show ?case by simp
qed

lemma idle_run:
  "\<exists>s'. train_loop fuel idle_config (init_locals idle_config) = OutOfFuel s'
        \<and> evals s' = 0 \<and> history s' = [] \<and> steps s' = fuel"
  using idle_loop [of "init_locals idle_config" fuel] by (simp add: init_locals_def)

text \<open>
  Claim C7. With three batches per epoch and \<^verbatim>\<open>eval_interval = 2\<close>, the first evaluation
  runs after the second optimizer step and the next one after the fifth, both at loop index
  \<open>i = 2\<close>: three batches, not two, lie between two consecutive evaluations when an epoch
  boundary falls between them, because the \<^verbatim>\<open>else\<close> clause of the \<^verbatim>\<open>for\<close> loop restarts
  the enumeration at \<^verbatim>\<open>i % eval_interval\<close>, the index of the last batch, instead of the one
  after it.
\<close>

theorem eval_interval_across_epochs:
  "eval_interval interval_config = 2 \<and> train_data interval_config = 3
   \<and> train_single_span 2 interval_config
        = Finished (final (train_single_span 2 interval_config))
   \<and> map (\<lambda>r. (at_step r, at_index r)) (history (final (train_single_span 2 interval_config)))
        = [(2, 2), (5, 2)]
   \<and> train_two_span 2 interval_config
        = Finished (final (train_two_span 2 interval_config))
   \<and> map (\<lambda>r. (at_step r, at_index r)) (history (final (train_two_span 2 interval_config)))
        = [(2, 2), (5, 2)]"
  using interval_run
  by (simp add: train_single_span_def train_two_span_def) (simp add: interval_config_def)








text \<open>
  Nor does every run terminate: with one batch per epoch and \<^verbatim>\<open>eval_interval = 2\<close> the
  loop index is 1 in every epoch, no evaluation is ever triggered, and the run is still
  going after any number of epochs.
\<close>

lemma idle_run_never_evaluates:
  "(\<exists>s'. train_single_span fuel idle_config = OutOfFuel s' \<and> evals s' = 0 \<and> steps s' = fuel)
 \<and> (\<exists>s'. train_two_span fuel idle_config = OutOfFuel s' \<and> evals s' = 0 \<and> steps s' = fuel)"
  using idle_run [of fuel] by (auto simp: train_single_span_def train_two_span_def)

subsection \<open>Span aligner\<close>

lemma and_then_simps [simp]:
  "and_then (Inl e) f = Inl e"
  "and_then (Inr x) f = f x"
  by (simp_all add: and_then_def)

lemma and_then_Inr:
  "and_then r f = Inr y \<longleftrightarrow> (\<exists>x. r = Inr x \<and> f x = Inr y)"
  by (cases r) simp_all

lemma and_then_assoc:
  "and_then (and_then r f) g = and_then r (\<lambda>x. and_then (f x) g)"
  by (cases r) simp_all

lemma align_sample_skip:
  assumes "pad_tokens L tokens = Inr target"
    and "lookup_spans enc span1s span2s i = Inr spans" and "None \<in> set spans"
  shows "align_sample enc span1s span2s labels labels_to_ids L i tokens acc = Inr acc"
  using assms by (simp add: align_sample_def)

lemma align_sample_cases:
  assumes "align_sample enc span1s span2s labels labels_to_ids L i tokens acc = Inr acc'"
  shows "\<exists>target spans. pad_tokens L tokens = Inr target
           \<and> lookup_spans enc span1s span2s i = Inr spans
           \<and> (if None \<in> set spans then acc' = acc
               else \<exists>label. label_tensor labels_to_ids labels i = Inr label
                 \<and> updated_input_ids acc' = updated_input_ids acc @ [target]
                 \<and> span1_masks acc' = span1_masks acc @
                      [span_mask L (fst (the (spans ! 0))) (snd (the (spans ! 1)))]
                 \<and> span2_masks acc' =
                      (if span2s \<noteq> []
                       then span2_masks acc @
                         [span_mask L (fst (the (spans ! 2))) (snd (the (spans ! 3)))]
                       else span2_masks acc)
                 \<and> label_tensors acc' = label_tensors acc @ [label]
                 \<and> kept acc' = kept acc @ [i])"
proof -
  from assms obtain target where p: "pad_tokens L tokens = Inr target"
    by (auto simp: align_sample_def and_then_Inr)
  from assms p obtain spans where l: "lookup_spans enc span1s span2s i = Inr spans"
    by (auto simp: align_sample_def and_then_Inr)
  show ?thesis
  proof (cases "None \<in> set spans")
    case True
    then show ?thesis using assms p l by (simp add: align_sample_def)
  next
    case False
    then show ?thesis using assms p l
      by (auto simp: align_sample_def Let_def and_then_Inr)
  qed
qed

lemma align_loop_append:
  "align_loop enc span1s span2s labels labels_to_ids L (xs @ ys) acc =
     and_then (align_loop enc span1s span2s labels labels_to_ids L xs acc)
       (align_loop enc span1s span2s labels labels_to_ids L ys)"
proof (induction xs arbitrary: acc)
  case Nil
  then show ?case by simp
next
  case (Cons x xs)
  obtain i tokens where x: "x = (i, tokens)" by (cases x)
  show ?case
    by (cases "align_sample enc span1s span2s labels labels_to_ids L i tokens acc")
       (simp_all add: x Cons.IH)
qed

lemma resolved_iff:
  "lookup_spans enc span1s span2s i = Inr spans \<Longrightarrow>
     resolved enc span1s span2s i \<longleftrightarrow> None \<notin> set spans"
  by (simp add: resolved_def)

lemma align_sample_kept:
  assumes "align_sample enc span1s span2s labels labels_to_ids L i tokens acc = Inr acc'"
    and "in_step span2s acc"
  shows "in_step span2s acc'
       \<and> kept acc' = kept acc @ (if resolved enc span1s span2s i then [i] else [])"
proof -
  from align_sample_cases [OF assms(1)] obtain target spans
    where l: "lookup_spans enc span1s span2s i = Inr spans"
      and c: "if None \<in> set spans then acc' = acc
               else \<exists>label. label_tensor labels_to_ids labels i = Inr label
                 \<and> updated_input_ids acc' = updated_input_ids acc @ [target]
                 \<and> span1_masks acc' = span1_masks acc @
                      [span_mask L (fst (the (spans ! 0))) (snd (the (spans ! 1)))]
                 \<and> span2_masks acc' =
                      (if span2s \<noteq> []
                       then span2_masks acc @
                         [span_mask L (fst (the (spans ! 2))) (snd (the (spans ! 3)))]
                       else span2_masks acc)
                 \<and> label_tensors acc' = label_tensors acc @ [label]
                 \<and> kept acc' = kept acc @ [i]"
    by (elim exE conjE)
  show ?thesis
  proof (cases "None \<in> set spans")
    case True
    then show ?thesis using c assms(2) resolved_iff [OF l] by simp
  next
    case False
    then show ?thesis using c assms(2) resolved_iff [OF l]
      by (auto simp: in_step_def)
  qed
qed

lemma align_loop_kept:
  assumes "align_loop enc span1s span2s labels labels_to_ids L (enumerate n rows) acc = Inr out"
    and "in_step span2s acc"
  shows "in_step span2s out
       \<and> kept out = kept acc @ filter (resolved enc span1s span2s) [n..<n + length rows]"
  using assms
proof (induction rows arbitrary: n acc)
  case Nil
  then show ?case by simp
next
  case (Cons row rows)
  from Cons.prems(1) obtain acc'
    where s: "align_sample enc span1s span2s labels labels_to_ids L n row acc = Inr acc'"
      and r: "align_loop enc span1s span2s labels labels_to_ids L (enumerate (Suc n) rows) acc'
                = Inr out"
    by (auto simp: and_then_Inr)
  note k = align_sample_kept [OF s Cons.prems(2)]
  from Cons.IH [OF r] k have o: "in_step span2s out"
    and ko: "kept out = kept acc' @ filter (resolved enc span1s span2s) [Suc n..<Suc n + length rows]"
    by simp_all
  have "[n..<n + length (row # rows)] = n # [Suc n..<Suc n + length rows]"
    by (simp add: upt_conv_Cons del: upt_Suc)
  then show ?case using k o ko by (simp del: upt_Suc)
qed

lemmas aligner_simps = tokenize_jiant_dataset_def row_of_def tokenizer_max_length_def
      enumerate_eq_zip align_sample_def pad_tokens_def zeros_def assign_prefix_def
      lookup_spans_def lookup_span_def py_nth_def word_to_tokens_def label_tensor_def num_labels_def
      no_samples_def Let_def upt_rec

lemma lookup_spans_length:
  "lookup_spans enc span1s span2s i = Inr spans \<Longrightarrow>
     length spans = (if span2s = [] then 2 else 4)"
  by (auto simp: lookup_spans_def and_then_Inr split: if_splits)

lemma dropped_sample_run:
  "tokenize_jiant_dataset two_texts [[0, 7], [1, 1]] [] [''a'', ''b''] [(''a'', 0), (''b'', 1)] 128
     = Inr \<lparr> updated_input_ids = [row_of [101, 7861, 8270, 4667, 2015, 2600, 102]],
             span1_masks = [span_mask 128 2 3], span2_masks = [],
             label_tensors = [[0, 1]], kept = [1] \<rparr>"
  by (simp add: two_texts_def aligner_simps)

lemma dropped_two_span_run:
  "tokenize_jiant_dataset two_texts [[0, 0], [1, 1]] [[1, 1], [0, 9]] [''a'', ''b'']
       [(''a'', 0), (''b'', 1)] 128
     = Inr \<lparr> updated_input_ids = [row_of [101, 1037, 1038, 102]],
             span1_masks = [span_mask 128 1 2], span2_masks = [span_mask 128 2 3],
             label_tensors = [[1, 0]], kept = [0] \<rparr>"
  by (simp add: two_texts_def aligner_simps)

text \<open>
  Claim C6. When the processing of a sample reaches the lookups (the padding of its row
  succeeded), the lookups return (two for a data set without \<^verbatim>\<open>span2s\<close>, four for one with)
  and one of them is \<open>None\<close>, the sample raises no error and leaves every output list as it
  was; the call then behaves, for its result and for any error of another sample, exactly
  as the call without this sample. Every call that returns has kept exactly the samples whose
  lookups all resolved, in their order, with one entry per kept sample in each output list
  (in \<^verbatim>\<open>span2_masks\<close> when \<^verbatim>\<open>span2s\<close> is given); so the number of aligned samples is at
  most the number of input samples.
\<close>

theorem unresolved_sample_is_dropped:
  "(lookup_spans enc span1s span2s i = Inr spans \<longrightarrow> length spans = (if span2s = [] then 2 else 4))
 \<and> (pad_tokens L tokens = Inr target \<longrightarrow> lookup_spans enc span1s span2s i = Inr spans \<longrightarrow>
    None \<in> set spans \<longrightarrow>
      align_sample enc span1s span2s labels labels_to_ids L i tokens acc = Inr acc
    \<and> align_loop enc span1s span2s labels labels_to_ids L (pre @ (i, tokens) # post) acc0
        = align_loop enc span1s span2s labels labels_to_ids L (pre @ post) acc0)
 \<and> (tokenize_jiant_dataset enc span1s span2s labels labels_to_ids L = Inr out \<longrightarrow>
      kept out = filter (resolved enc span1s span2s) [0..<length (input_ids enc)]
    \<and> in_step span2s out
    \<and> length (kept out) \<le> length (input_ids enc))"
proof (intro conjI impI)
  assume "lookup_spans enc span1s span2s i = Inr spans"
  then show "length spans = (if span2s = [] then 2 else 4)" by (rule lookup_spans_length)
next
  assume a: "pad_tokens L tokens = Inr target" "lookup_spans enc span1s span2s i = Inr spans"
    "None \<in> set spans"
  have skip: "align_sample enc span1s span2s labels labels_to_ids L i tokens acc = Inr acc" for acc
    using a by (rule align_sample_skip)
  show "align_sample enc span1s span2s labels labels_to_ids L i tokens acc = Inr acc"
    by (rule skip)
  have "align_loop enc span1s span2s labels labels_to_ids L ((i, tokens) # post)
      = align_loop enc span1s span2s labels labels_to_ids L post"
    by (rule ext) (simp add: skip)
  then show "align_loop enc span1s span2s labels labels_to_ids L (pre @ (i, tokens) # post) acc0
        = align_loop enc span1s span2s labels labels_to_ids L (pre @ post) acc0"
    by (simp only: align_loop_append)
next
  assume r: "tokenize_jiant_dataset enc span1s span2s labels labels_to_ids L = Inr out"
  have "in_step span2s no_samples" by (simp add: in_step_def no_samples_def)
  from align_loop_kept [OF r [unfolded tokenize_jiant_dataset_def] this]
  have i: "in_step span2s out"
    and k: "kept out = filter (resolved enc span1s span2s) [0..<length (input_ids enc)]"
    by (simp_all add: no_samples_def)
  show "kept out = filter (resolved enc span1s span2s) [0..<length (input_ids enc)]" by (rule k)
  show "in_step span2s out" by (rule i)
  have "length (filter (resolved enc span1s span2s) [0..<length (input_ids enc)])
      \<le> length [0..<length (input_ids enc)]"
    by (rule length_filter_le)
  then show "length (kept out) \<le> length (input_ids enc)" by (simp add: k)
qed

theorem unresolved_sample_is_dropped_witness:
  "pad_tokens 128 (row_of [101, 1037, 1038, 102]) = Inr (row_of [101, 1037, 1038, 102])
 \<and> lookup_spans two_texts [[0, 7], [1, 1]] [] 0 = Inr [Some (1, 2), None]
 \<and> None \<in> set [Some (1::nat, 2::nat), None]
 \<and> length [Some (1::nat, 2::nat), None] = 2
 \<and> align_sample two_texts [[0, 7], [1, 1]] [] [''a'', ''b''] [(''a'', 0), (''b'', 1)] 128
      0 (row_of [101, 1037, 1038, 102]) no_samples = Inr no_samples
 \<and> align_loop two_texts [[0, 7], [1, 1]] [] [''a'', ''b''] [(''a'', 0), (''b'', 1)] 128
      ([] @ (0, row_of [101, 1037, 1038, 102])
          # [(1, row_of [101, 7861, 8270, 4667, 2015, 2600, 102])]) no_samples
    = align_loop two_texts [[0, 7], [1, 1]] [] [''a'', ''b''] [(''a'', 0), (''b'', 1)] 128
      ([] @ [(1, row_of [101, 7861, 8270, 4667, 2015, 2600, 102])]) no_samples
 \<and> (\<exists>out. tokenize_jiant_dataset two_texts [[0, 7], [1, 1]] [] [''a'', ''b'']
             [(''a'', 0), (''b'', 1)] 128 = Inr out
        \<and> kept out = [1] \<and> span1_masks out = [span_mask 128 2 3] \<and> in_step [] out)
 \<and> filter (resolved two_texts [[0, 7], [1, 1]] []) [0..<length (input_ids two_texts)] = [1]"
proof -
  have p: "pad_tokens 128 (row_of [101, 1037, 1038, 102]) = Inr (row_of [101, 1037, 1038, 102])"
    by (simp add: pad_tokens_def zeros_def assign_prefix_def row_of_def tokenizer_max_length_def)
  have l: "lookup_spans two_texts [[0, 7], [1, 1]] [] 0 = Inr [Some (1, 2), None]"
    by (simp add: two_texts_def lookup_spans_def lookup_span_def py_nth_def word_to_tokens_def
        Let_def)
  have n: "None \<in> set [Some (1::nat, 2::nat), None]" by simp
  note T = unresolved_sample_is_dropped
    [where enc = two_texts and ?span1s.0 = "[[0, 7], [1, 1]]" and ?span2s.0 = "[]"
       and labels = "[''a'', ''b'']" and labels_to_ids = "[(''a'', 0), (''b'', 1)]" and L = 128]
  note A = T [where i = 0 and spans = "[Some (1, 2), None]"
       and tokens = "row_of [101, 1037, 1038, 102]" and target = "row_of [101, 1037, 1038, 102]"
       and acc = no_samples and ?acc0.0 = no_samples and pre = "[]"
       and post = "[(1, row_of [101, 7861, 8270, 4667, 2015, 2600, 102])]"]
  from A [THEN conjunct1, rule_format, OF l]
  have len: "length [Some (1::nat, 2::nat), None] = 2" by simp
  note B = A [THEN conjunct2, THEN conjunct1, rule_format, OF p l n]
  let ?out = "\<lparr> updated_input_ids = [row_of [101, 7861, 8270, 4667, 2015, 2600, 102]],
             span1_masks = [span_mask 128 2 3], span2_masks = [],
             label_tensors = [[0, 1]], kept = [1] \<rparr>"
  note C = T [where out = ?out, THEN conjunct2, THEN conjunct2, rule_format, OF dropped_sample_run]
  have c1: "filter (resolved two_texts [[0, 7], [1, 1]] []) [0..<length (input_ids two_texts)]
      = kept ?out"
    using C [THEN conjunct1] by simp
  have c2: "in_step [] ?out" using C [THEN conjunct2, THEN conjunct1] .
  have "\<exists>out. tokenize_jiant_dataset two_texts [[0, 7], [1, 1]] [] [''a'', ''b'']
             [(''a'', 0), (''b'', 1)] 128 = Inr out
        \<and> kept out = [1] \<and> span1_masks out = [span_mask 128 2 3] \<and> in_step [] out"
    using dropped_sample_run c2 by (intro exI [of _ ?out]) simp
  moreover have "filter (resolved two_texts [[0, 7], [1, 1]] []) [0..<length (input_ids two_texts)]
      = [1]"
    using c1 by simp
  ultimately show ?thesis using p l n len B by simp
qed

lemma mismatch_run:
  "tokenize_jiant_dataset two_texts [[0, 0], [1, 1]] [] [''a'', ''b''] [(''a'', 0), (''b'', 1)] 128
     = Inr \<lparr> updated_input_ids = [row_of [101, 1037, 1038, 102],
                                  row_of [101, 7861, 8270, 4667, 2015, 2600, 102]],
             span1_masks = [span_mask 128 1 2, span_mask 128 2 3], span2_masks = [],
             label_tensors = [[1, 0], [0, 1]], kept = [0, 1] \<rparr>"
  by (simp add: two_texts_def aligner_simps)

lemma span_mask_nth:
  "p < nat L \<Longrightarrow> span_mask L s e ! p = (s \<le> p \<and> p < e)"
  by (simp add: span_mask_def)

lemma span_mask_length [simp]: "length (span_mask L s e) = nat L"
  by (simp add: span_mask_def)

text \<open>
  Claim C2. On a batch of two texts whose first words are tokenized differently, the span
  of the second sample is word 1 of its text, which its own tokenization maps to the tokens
  \<open>5 \<le> p < 6\<close>. Both samples are kept, and the mask returned for the second sample is true
  at \<open>2 \<le> p < 3\<close>, the tokens of word 1 of the first text: the source calls
  \<^verbatim>\<open>encodings.word_to_tokens\<close> with the word index only, which resolves it in sequence 0
  of the batch for every sample.
\<close>

theorem span_mask_from_first_sample:
  "tokenize_jiant_dataset two_texts [[0, 0], [1, 1]] [] [''a'', ''b''] [(''a'', 0), (''b'', 1)] 128
     = Inr \<lparr> updated_input_ids = [row_of [101, 1037, 1038, 102],
                                  row_of [101, 7861, 8270, 4667, 2015, 2600, 102]],
             span1_masks = [span_mask 128 1 2, span_mask 128 2 3], span2_masks = [],
             label_tensors = [[1, 0], [0, 1]], kept = [0, 1] \<rparr>
 \<and> word_to_tokens two_texts 1 (Some 1) = Inr (Some (5, 6))
 \<and> word_to_tokens two_texts 1 None = Inr (Some (2, 3))
 \<and> span_mask 128 2 3 ! 2 = True \<and> span_mask 128 5 6 ! 2 = False
 \<and> span_mask 128 2 3 ! 5 = False \<and> span_mask 128 5 6 ! 5 = True
 \<and> span_mask 128 2 3 \<noteq> span_mask 128 5 6"
proof -
  have a: "span_mask 128 2 3 ! 2 = True" "span_mask 128 5 6 ! 2 = False"
    "span_mask 128 2 3 ! 5 = False" "span_mask 128 5 6 ! 5 = True"
    by (simp_all add: span_mask_nth)
  then have "span_mask 128 2 3 \<noteq> span_mask 128 5 6" by metis
  moreover have "word_to_tokens two_texts 1 (Some 1) = Inr (Some (5, 6))"
    "word_to_tokens two_texts 1 None = Inr (Some (2, 3))"
    by (simp_all add: word_to_tokens_def two_texts_def)
  ultimately show ?thesis using a mismatch_run by simp
qed

lemma pad_tokens_long:
  assumes "length tokens = tokenizer_max_length" and "int tokenizer_max_length \<le> L"
  shows "pad_tokens L tokens = Inr (tokens @ replicate (nat L - tokenizer_max_length) 0)"
  using assms by (simp add: pad_tokens_def zeros_def assign_prefix_def)

lemma pad_tokens_short:
  assumes "length tokens = tokenizer_max_length" and "L < int tokenizer_max_length"
  shows "pad_tokens L tokens = Inl RuntimeError"
    and "0 \<le> L \<Longrightarrow> zeros L = Inr (replicate (nat L) 0)
           \<and> assign_prefix (replicate (nat L) 0) tokens = Inl RuntimeError"
  using assms by (auto simp: pad_tokens_def zeros_def assign_prefix_def)

lemma word_to_tokens_bound:
  assumes "tokenizer_output enc" and "word_to_tokens enc w b = Inr (Some (s, e))"
  shows "e \<le> tokenizer_max_length"
proof -
  define bi where "bi = (case b of None \<Rightarrow> 0 | Some w' \<Rightarrow> w)"
  define wi where "wi = (case b of None \<Rightarrow> w | Some w' \<Rightarrow> w')"
  define b' where "b' = (if bi < 0 then int (length (word_tables enc)) + bi else bi)"
  have r: "0 \<le> b' \<and> b' < int (length (word_tables enc))"
    and v: "(word_tables enc ! nat b') wi = Some (s, e)"
    using assms(2) unfolding word_to_tokens_def Let_def bi_def [symmetric] wi_def [symmetric]
      b'_def [symmetric]
    by (simp_all split: if_splits)
  from r have "nat b' < length (word_tables enc)" by linarith
  then have "word_tables enc ! nat b' \<in> set (word_tables enc)" by (rule nth_mem)
  with v assms(1) show ?thesis unfolding tokenizer_output_def by blast
qed

lemma lookup_span_bound:
  assumes "tokenizer_output enc" and "lookup_span enc spans i j = Inr (Some (s, e))"
  shows "e \<le> tokenizer_max_length"
  using assms(2) word_to_tokens_bound [OF assms(1)]
  by (auto simp: lookup_span_def and_then_Inr)

lemma lookup_spans_bound:
  assumes t: "tokenizer_output enc" and l: "lookup_spans enc span1s span2s i = Inr spans"
    and k: "k < length spans" and n: "None \<notin> set spans"
  shows "snd (the (spans ! k)) \<le> tokenizer_max_length"
proof -
  have el: "\<exists>sp j. lookup_span enc sp i j = Inr (spans ! k)"
  proof (cases "span2s = []")
    case True
    then obtain a b where "lookup_span enc span1s i 0 = Inr a" "lookup_span enc span1s i 1 = Inr b"
      "spans = [a, b]"
      using l by (auto simp: lookup_spans_def and_then_Inr)
    then show ?thesis using k by (cases k) auto
  next
    case False
    then obtain a b c d where "lookup_span enc span1s i 0 = Inr a"
      "lookup_span enc span1s i 1 = Inr b" "lookup_span enc span2s i 0 = Inr c"
      "lookup_span enc span2s i 1 = Inr d" "spans = [a, b, c, d]"
      using l by (auto simp: lookup_spans_def and_then_Inr)
    then show ?thesis using k by (auto simp: nth_Cons' less_Suc_eq numeral_eq_Suc)
  qed
  from n k obtain s e where "spans ! k = Some (s, e)"
    by (metis nth_mem not_None_eq surj_pair)
  with el lookup_span_bound [OF t] show ?thesis by auto
qed

lemma span_mask_false_beyond:
  assumes "e \<le> tokenizer_max_length"
  shows "false_beyond L (span_mask L s e)"
proof -
  have "drop tokenizer_max_length (span_mask L s e)
      = map (\<lambda>p. s \<le> p \<and> p < e) [tokenizer_max_length..<nat L]"
    by (simp add: span_mask_def drop_map)
  also have "\<dots> = map (\<lambda>p. False) [tokenizer_max_length..<nat L]"
    using assms by (intro map_cong) auto
  also have "\<dots> = replicate (nat L - tokenizer_max_length) False"
    by (simp add: map_replicate_const)
  finally show ?thesis by (simp add: false_beyond_def)
qed

lemma padded_zero_beyond:
  assumes "length tokens = tokenizer_max_length" and "int tokenizer_max_length \<le> L"
  shows "zero_beyond L (tokens @ replicate (nat L - tokenizer_max_length) 0)"
  using assms by (simp add: zero_beyond_def)

lemma align_sample_beyond:
  assumes t: "tokenizer_output enc" and L: "int tokenizer_max_length \<le> L"
    and len: "length tokens = tokenizer_max_length"
    and s: "align_sample enc span1s span2s labels labels_to_ids L i tokens acc = Inr acc'"
    and inv: "beyond_inv L acc"
  shows "beyond_inv L acc'"
proof -
  from align_sample_cases [OF s] obtain target spans
    where p: "pad_tokens L tokens = Inr target"
      and l: "lookup_spans enc span1s span2s i = Inr spans"
      and c: "if None \<in> set spans then acc' = acc
               else \<exists>label. label_tensor labels_to_ids labels i = Inr label
                 \<and> updated_input_ids acc' = updated_input_ids acc @ [target]
                 \<and> span1_masks acc' = span1_masks acc @
                      [span_mask L (fst (the (spans ! 0))) (snd (the (spans ! 1)))]
                 \<and> span2_masks acc' =
                      (if span2s \<noteq> []
                       then span2_masks acc @
                         [span_mask L (fst (the (spans ! 2))) (snd (the (spans ! 3)))]
                       else span2_masks acc)
                 \<and> label_tensors acc' = label_tensors acc @ [label]
                 \<and> kept acc' = kept acc @ [i]"
    by (elim exE conjE)
  show ?thesis
  proof (cases "None \<in> set spans")
    case True
    then show ?thesis using c inv by simp
  next
    case False
    have tg: "zero_beyond L target"
      using p pad_tokens_long [OF len L] padded_zero_beyond [OF len L] by simp
    have n: "length spans = (if span2s = [] then 2 else 4)" using l by (rule lookup_spans_length)
    have m1: "false_beyond L (span_mask L (fst (the (spans ! 0))) (snd (the (spans ! 1))))"
      using lookup_spans_bound [OF t l _ False, of 1] n
      by (intro span_mask_false_beyond) (simp split: if_splits)
    have m2: "span2s \<noteq> [] \<Longrightarrow>
        false_beyond L (span_mask L (fst (the (spans ! 2))) (snd (the (spans ! 3))))"
      using lookup_spans_bound [OF t l _ False, of 3] n
      by (intro span_mask_false_beyond) (simp split: if_splits)
    show ?thesis using c False inv tg m1 m2 by (auto simp: beyond_inv_def)
  qed
qed

lemma align_loop_beyond:
  assumes t: "tokenizer_output enc" and L: "int tokenizer_max_length \<le> L"
  shows "align_loop enc span1s span2s labels labels_to_ids L xs acc = Inr out \<Longrightarrow>
         \<forall>x\<in>set xs. length (snd x) = tokenizer_max_length \<Longrightarrow> beyond_inv L acc \<Longrightarrow>
         beyond_inv L out"
proof (induction xs arbitrary: acc)
  case Nil
  then show ?case by simp
next
  case (Cons x xs)
  obtain i tokens where x: "x = (i, tokens)" by (cases x)
  from Cons.prems(1) obtain acc'
    where s: "align_sample enc span1s span2s labels labels_to_ids L i tokens acc = Inr acc'"
      and r: "align_loop enc span1s span2s labels labels_to_ids L xs acc' = Inr out"
    by (auto simp: x and_then_Inr)
  have len: "length tokens = tokenizer_max_length" using Cons.prems(2) by (simp add: x)
  have "beyond_inv L acc'" using t L len s Cons.prems(3) by (rule align_sample_beyond)
  with Cons.IH [OF r] Cons.prems(2) show ?case by simp
qed

lemma short_call_fails:
  assumes t: "tokenizer_output enc" and L: "L < int tokenizer_max_length"
    and ne: "input_ids enc \<noteq> []"
  shows "tokenize_jiant_dataset enc span1s span2s labels labels_to_ids L = Inl RuntimeError"
proof -
  from ne obtain row rows where e: "input_ids enc = row # rows" by (cases "input_ids enc") auto
  have len: "length row = tokenizer_max_length" using t e by (simp add: tokenizer_output_def)
  have "align_sample enc span1s span2s labels labels_to_ids L 0 row acc = Inl RuntimeError" for acc
    using pad_tokens_short(1) [OF len L] by (simp add: align_sample_def)
  then show ?thesis by (simp add: tokenize_jiant_dataset_def e)
qed

lemma two_texts_output: "tokenizer_output two_texts"
  by (simp add: tokenizer_output_def two_texts_def row_of_def tokenizer_max_length_def)

lemma long_run:
  "tokenize_jiant_dataset two_texts [[0, 0], [1, 1]] [] [''a'', ''b''] [(''a'', 0), (''b'', 1)] 130
     = Inr \<lparr> updated_input_ids = [row_of [101, 1037, 1038, 102] @ [0, 0],
                                  row_of [101, 7861, 8270, 4667, 2015, 2600, 102] @ [0, 0]],
             span1_masks = [span_mask 130 1 2, span_mask 130 2 3], span2_masks = [],
             label_tensors = [[1, 0], [0, 1]], kept = [0, 1] \<rparr>"
  by (simp add: two_texts_def aligner_simps replicate_Suc [symmetric] numeral_eq_Suc
        del: replicate_Suc replicate.simps)
     (simp add: numeral_eq_Suc)

text \<open>
  Claim C10. Let \<open>enc\<close> be what the tokenizer returns for its hard-coded arguments: every
  row truncated or padded to 128 tokens, token spans within the row. For every call with
  \<^verbatim>\<open>max_seq_length\<close> above 128 that returns, every returned input-id vector and every
  returned mask has length \<^verbatim>\<open>max_seq_length\<close> and holds only 0, respectively \<open>False\<close>, from
  position 128 on. Every call with \<^verbatim>\<open>max_seq_length\<close> below 128 on at least one text raises
  \<^verbatim>\<open>RuntimeError\<close> at the first sample; when \<^verbatim>\<open>max_seq_length\<close> is not negative this is the
  assignment \<^verbatim>\<open>target[:tokens.shape[0]] = tokens\<close> of a row of 128 tokens to the shorter
  \<^verbatim>\<open>target\<close>.
\<close>

theorem hard_coded_length_128:
  assumes "tokenizer_output enc"
  shows "(128 < max_seq_length \<longrightarrow>
          tokenize_jiant_dataset enc span1s span2s labels labels_to_ids max_seq_length = Inr out \<longrightarrow>
            list_all (zero_beyond max_seq_length) (updated_input_ids out)
          \<and> list_all (false_beyond max_seq_length) (span1_masks out)
          \<and> list_all (false_beyond max_seq_length) (span2_masks out))
       \<and> (max_seq_length < 128 \<longrightarrow> input_ids enc \<noteq> [] \<longrightarrow>
            tokenize_jiant_dataset enc span1s span2s labels labels_to_ids max_seq_length
              = Inl RuntimeError
          \<and> (0 \<le> max_seq_length \<longrightarrow>
                zeros max_seq_length = Inr (replicate (nat max_seq_length) 0)
              \<and> length (hd (input_ids enc)) = 128
              \<and> assign_prefix (replicate (nat max_seq_length) 0) (hd (input_ids enc))
                  = Inl RuntimeError))"
proof (intro conjI impI)
  assume L: "128 < max_seq_length"
    and r: "tokenize_jiant_dataset enc span1s span2s labels labels_to_ids max_seq_length = Inr out"
  have L': "int tokenizer_max_length \<le> max_seq_length"
    using L by (simp add: tokenizer_max_length_def)
  have rows: "\<forall>x\<in>set (enumerate 0 (input_ids enc)). length (snd x) = tokenizer_max_length"
    using assms by (auto simp: tokenizer_output_def in_set_enumerate_eq)
  have "beyond_inv max_seq_length no_samples" by (simp add: beyond_inv_def no_samples_def)
  from align_loop_beyond [OF assms L' r [unfolded tokenize_jiant_dataset_def] rows this]
  show "list_all (zero_beyond max_seq_length) (updated_input_ids out)"
    and "list_all (false_beyond max_seq_length) (span1_masks out)"
    and "list_all (false_beyond max_seq_length) (span2_masks out)"
    by (simp_all add: beyond_inv_def)
next
  assume L: "max_seq_length < 128" and ne: "input_ids enc \<noteq> []"
  have L': "max_seq_length < int tokenizer_max_length"
    using L by (simp add: tokenizer_max_length_def)
  show "tokenize_jiant_dataset enc span1s span2s labels labels_to_ids max_seq_length
      = Inl RuntimeError"
    using assms L' ne by (rule short_call_fails)
  have len: "length (hd (input_ids enc)) = tokenizer_max_length"
    using assms ne by (cases "input_ids enc") (simp_all add: tokenizer_output_def)
  then show "length (hd (input_ids enc)) = 128" by (simp add: tokenizer_max_length_def)
  assume "0 \<le> max_seq_length"
  from pad_tokens_short(2) [OF len L' this]
  show "zeros max_seq_length = Inr (replicate (nat max_seq_length) 0)"
    and "assign_prefix (replicate (nat max_seq_length) 0) (hd (input_ids enc)) = Inl RuntimeError"
    by simp_all
qed

theorem hard_coded_length_128_witness:
  "tokenizer_output two_texts \<and> (128::int) < 130 \<and> (127::int) < 128 \<and> (0::int) \<le> 127
 \<and> input_ids two_texts \<noteq> []
 \<and> tokenize_jiant_dataset two_texts [[0, 0], [1, 1]] [] [''a'', ''b''] [(''a'', 0), (''b'', 1)] 130
     = Inr \<lparr> updated_input_ids = [row_of [101, 1037, 1038, 102] @ [0, 0],
                                  row_of [101, 7861, 8270, 4667, 2015, 2600, 102] @ [0, 0]],
             span1_masks = [span_mask 130 1 2, span_mask 130 2 3], span2_masks = [],
             label_tensors = [[1, 0], [0, 1]], kept = [0, 1] \<rparr>
 \<and> list_all (zero_beyond 130) [row_of [101, 1037, 1038, 102] @ [0, 0],
                                  row_of [101, 7861, 8270, 4667, 2015, 2600, 102] @ [0, 0]]
 \<and> list_all (false_beyond 130) [span_mask 130 1 2, span_mask 130 2 3]
 \<and> tokenize_jiant_dataset two_texts [[0, 0], [1, 1]] [] [''a'', ''b''] [(''a'', 0), (''b'', 1)] 127
     = Inl RuntimeError
 \<and> assign_prefix (replicate 127 0) (hd (input_ids two_texts)) = Inl RuntimeError"
proof -
  have ne: "input_ids two_texts \<noteq> []" by (simp add: two_texts_def)
  note T = hard_coded_length_128 [OF two_texts_output,
      where ?span1s.0 = "[[0, 0], [1, 1]]" and ?span2s.0 = "[]" and labels = "[''a'', ''b'']"
        and labels_to_ids = "[(''a'', 0), (''b'', 1)]"]
  from T [where max_seq_length = 130, THEN conjunct1, rule_format, OF _ long_run]
  have a: "list_all (zero_beyond 130) [row_of [101, 1037, 1038, 102] @ [0, 0],
                                  row_of [101, 7861, 8270, 4667, 2015, 2600, 102] @ [0, 0]]"
    and b: "list_all (false_beyond 130) [span_mask 130 1 2, span_mask 130 2 3]"
    by simp_all
  from T [where max_seq_length = 127, THEN conjunct2, rule_format, OF _ ne]
  have c: "tokenize_jiant_dataset two_texts [[0, 0], [1, 1]] [] [''a'', ''b'']
        [(''a'', 0), (''b'', 1)] 127 = Inl RuntimeError"
    and d: "assign_prefix (replicate 127 0) (hd (input_ids two_texts)) = Inl RuntimeError"
    by simp_all
  show ?thesis using two_texts_output ne long_run a b c d by simp
qed

subsection \<open>Sweep controller\<close>

lemma completed_table_Cons:
  "completed_table m (l # ls) t = completed_table m ls (AList.update l (m l) t)"
  by (simp add: completed_table_def)

lemma completed_table_Nil [simp]: "completed_table m [] t = t"
  by (simp add: completed_table_def)

lemma completed_table_append:
  "completed_table m (ls @ ls') t = completed_table m ls' (completed_table m ls t)"
  by (simp add: completed_table_def)

lemma completed_table_set:
  "fst ` set (completed_table m ls t) = fst ` set t \<union> set ls"
proof (induction ls arbitrary: t)
  case Nil
  then show ?case by simp
next
  case (Cons l ls)
  have "set (map fst (AList.update l (m l) t)) = insert l (set (map fst t))"
    by (auto simp: AList.update_keys)
  then have "fst ` set (AList.update l (m l) t) = insert l (fst ` set t)" by simp
  then show ?case using Cons.IH [of "AList.update l (m l) t"]
    by (simp add: completed_table_Cons)
qed

lemma completed_table_distinct:
  "distinct (map fst t) \<Longrightarrow> distinct (map fst (completed_table m ls t))"
  by (induction ls arbitrary: t) (simp_all add: completed_table_Cons AList.distinct_update)

lemma completed_table_exact:
  "distinct ls \<Longrightarrow> set ls \<inter> set (map fst t) = {} \<Longrightarrow>
     map fst (completed_table m ls t) = map fst t @ ls"
proof (induction ls arbitrary: t)
  case Nil
  then show ?case by simp
next
  case (Cons l ls)
  have k: "map fst (AList.update l (m l) t) = map fst t @ [l]"
    using Cons.prems(2) by (simp add: AList.update_keys)
  have "set ls \<inter> set (map fst (AList.update l (m l) t)) = {}"
    using Cons.prems by (auto simp: k)
  with Cons.IH [of "AList.update l (m l) t"] Cons.prems(1) k
  show ?case by (simp add: completed_table_Cons)
qed

lemma completed_table_map_of:
  "map_of (completed_table m ls t) l = (if l \<in> set ls then Some (m l) else map_of t l)"
  by (induction ls arbitrary: t) (auto simp: completed_table_Cons AList.update_conv')

lemma json_dump_keys: "map fst (json_dump t) = map str_int (map fst t)"
  by (simp add: json_dump_def case_prod_unfold)

lemma json_dump_length: "length (json_dump t) = length t"
  by (simp add: json_dump_def)

text \<open>A layer that completes updates the dictionary and rewrites the file with all of it.\<close>

lemma probing_loop_completed:
  assumes tt: "task_type config = ''single_span'' \<or> task_type config = ''two_span''"
    and mn: "prefix ''roberta'' (model_name config) \<or> prefix ''bert'' (model_name config)"
    and rp: "results_path config = Some p" and w: "writable (p @ ''/results.json'')"
  shows "\<forall>l\<in>set ls. run_layer l = Inr (m l) \<Longrightarrow> ls \<noteq> [] \<Longrightarrow>
     probing_loop config run_layer writable (ls @ rest) st =
     probing_loop config run_layer writable rest
       \<lparr> results = completed_table m ls (results st),
         files = (files st)(p @ ''/results.json'' \<mapsto> json_dump (completed_table m ls (results st))) \<rparr>"
proof (induction ls arbitrary: st)
  case Nil
  then show ?case by simp
next
  case (Cons l ls)
  let ?t1 = "AList.update l (m l) (results st)"
  let ?st1 = "\<lparr> results = ?t1, files = (files st)(p @ ''/results.json'' \<mapsto> json_dump ?t1) \<rparr>"
  have r: "run_layer l = Inr (m l)" using Cons.prems(1) by simp
  have step: "probing_loop config run_layer writable ((l # ls) @ rest) st =
      probing_loop config run_layer writable (ls @ rest) ?st1"
    using tt mn rp w r by (cases st) (auto simp: Let_def)
  show ?case
  proof (cases "ls = []")
    case True
    have "probing_loop config run_layer writable (ls @ rest) ?st1 =
        probing_loop config run_layer writable rest ?st1"
      by (simp only: True append_Nil)
    moreover have "completed_table m (l # ls) (results st) = ?t1"
      using True by (simp add: completed_table_Cons)
    ultimately show ?thesis using step by (simp only:)
  next
    case False
    have "probing_loop config run_layer writable ((l # ls) @ rest) st =
        probing_loop config run_layer writable (ls @ rest) ?st1"
      by (rule step)
    also have "\<dots> = probing_loop config run_layer writable rest
        \<lparr> results = completed_table m ls (results ?st1),
          files = (files ?st1)(p @ ''/results.json'' \<mapsto>
                    json_dump (completed_table m ls (results ?st1))) \<rparr>"
      using Cons.prems(1) False by (intro Cons.IH) simp_all
    also have "\<lparr> results = completed_table m ls (results ?st1),
          files = (files ?st1)(p @ ''/results.json'' \<mapsto>
                    json_dump (completed_table m ls (results ?st1))) \<rparr>
        = \<lparr> results = completed_table m (l # ls) (results st),
            files = (files st)(p @ ''/results.json'' \<mapsto>
                      json_dump (completed_table m (l # ls) (results st))) \<rparr>"
      by (simp add: completed_table_Cons)
    finally show ?thesis .
  qed
qed

lemma probing_loop_crash:
  assumes tt: "task_type config = ''single_span'' \<or> task_type config = ''two_span''"
    and r: "run_layer l = Inl e"
    and mn: "prefix ''roberta'' (model_name config) \<or> prefix ''bert'' (model_name config)"
  shows "probing_loop config run_layer writable (l # rest) st = (Crashed e, st)"
  using assms by auto

lemma sweep_run:
  "probing sweep_config (\<lambda>l. Inr (layer_metrics l)) (\<lambda>p. True) Map.empty
     = (Returned (Some [(1, layer_metrics 1), (2, layer_metrics 2), (3, layer_metrics 3)]),
        \<lparr> results = [(1, layer_metrics 1), (2, layer_metrics 2), (3, layer_metrics 3)],
          files = [''out/results.json'' \<mapsto>
                     [(''1'', layer_metrics 1), (''2'', layer_metrics 2), (''3'', layer_metrics 3)]] \<rparr>)"
  by (simp add: probing_def sweep_config_def json_dump_def str_int_def Let_def)

lemma crash_run:
  "probing sweep_config crash_at_3 (\<lambda>p. True) Map.empty
     = (Crashed ZeroDivisionError,
        \<lparr> results = [(1, layer_metrics 1), (2, layer_metrics 2)],
          files = [''out/results.json'' \<mapsto> [(''1'', layer_metrics 1), (''2'', layer_metrics 2)]] \<rparr>)"
  by (simp add: probing_def sweep_config_def crash_at_3_def json_dump_def str_int_def Let_def)

text \<open>
  Claim C8. Let the task type be one of the two known ones, the model name start with
  \<^verbatim>\<open>roberta\<close> or \<^verbatim>\<open>bert\<close>, a results path be configured and its file be writable, and
  let the layers \<open>ls\<close>, the first ones of \<^verbatim>\<open>config.num_layers\<close> and at least one, complete
  with the metrics \<open>m\<close>. Then the sweep continues with the remaining layers from a state
  where the dictionary holds one entry per layer of \<open>ls\<close>, keyed by the layer, with that
  layer's metrics, and the results file has been replaced by the dump of that whole
  dictionary, whatever it held before; for distinct layers the keys of the file are the
  decimal strings of \<open>ls\<close> in order. If no layer remains, the sweep returns this dictionary
  and leaves this file; if the next layer raises, the sweep ends with that error and the
  file still holds the entries of all layers of \<open>ls\<close>.
\<close>

theorem results_file_rewritten_per_layer:
  assumes "task_type config = ''single_span'' \<or> task_type config = ''two_span''"
    and "prefix ''roberta'' (model_name config) \<or> prefix ''bert'' (model_name config)"
    and "results_path config = Some p" and "writable (p @ ''/results.json'')"
    and "num_layers config = ls @ rest" and "ls \<noteq> []"
    and "\<forall>l\<in>set ls. run_layer l = Inr (m l)"
  shows "probing config run_layer writable disk
           = probing_loop config run_layer writable rest
               \<lparr> results = completed_table m ls [],
                 files = disk(p @ ''/results.json'' \<mapsto> json_dump (completed_table m ls [])) \<rparr>
       \<and> fst ` set (completed_table m ls []) = set ls
       \<and> distinct (map fst (completed_table m ls []))
       \<and> (\<forall>l\<in>set ls. map_of (completed_table m ls []) l = Some (m l))
       \<and> length (json_dump (completed_table m ls [])) = length (completed_table m ls [])
       \<and> (distinct ls \<longrightarrow> map fst (json_dump (completed_table m ls [])) = map str_int ls)
       \<and> (rest = [] \<longrightarrow>
            probing config run_layer writable disk
              = (Returned (Some (completed_table m ls [])),
                 \<lparr> results = completed_table m ls [],
                   files = disk(p @ ''/results.json'' \<mapsto> json_dump (completed_table m ls [])) \<rparr>))
       \<and> (\<forall>l rest' e. rest = l # rest' \<longrightarrow> run_layer l = Inl e \<longrightarrow>
            probing config run_layer writable disk
              = (Crashed e,
                 \<lparr> results = completed_table m ls [],
                   files = disk(p @ ''/results.json'' \<mapsto> json_dump (completed_table m ls [])) \<rparr>))"
proof -
  let ?st = "\<lparr> results = completed_table m ls [],
                 files = disk(p @ ''/results.json'' \<mapsto> json_dump (completed_table m ls [])) \<rparr>"
  have run: "probing config run_layer writable disk
      = probing_loop config run_layer writable rest ?st"
    using probing_loop_completed
      [where config = config and p = p and writable = writable and run_layer = run_layer
         and m = m and ls = ls and rest = rest and st = "\<lparr> results = [], files = disk \<rparr>",
       OF assms(1,2,3,4,7,6)]
    by (simp add: probing_def assms(5))
  have k: "fst ` set (completed_table m ls []) = set ls"
    by (simp add: completed_table_set)
  have d: "distinct (map fst (completed_table m ls []))"
    by (rule completed_table_distinct) simp
  have v: "\<forall>l\<in>set ls. map_of (completed_table m ls []) l = Some (m l)"
    by (simp add: completed_table_map_of)
  have n: "length (json_dump (completed_table m ls [])) = length (completed_table m ls [])"
    by (rule json_dump_length)
  have s: "distinct ls \<longrightarrow> map fst (json_dump (completed_table m ls [])) = map str_int ls"
    using completed_table_exact [of ls "[]" m] by (simp add: json_dump_keys)
  have f: "rest = [] \<longrightarrow>
      probing config run_layer writable disk = (Returned (Some (completed_table m ls [])), ?st)"
    using run by simp
  have c: "\<forall>l rest' e. rest = l # rest' \<longrightarrow> run_layer l = Inl e \<longrightarrow>
      probing config run_layer writable disk = (Crashed e, ?st)"
    using run probing_loop_crash [OF assms(1) _ assms(2)] by (simp only:) blast
  show ?thesis using run k d v n s f c by (intro conjI)
qed

theorem results_file_rewritten_per_layer_witness:
  "(task_type sweep_config = ''single_span'' \<or> task_type sweep_config = ''two_span'')
 \<and> (prefix ''roberta'' (model_name sweep_config) \<or> prefix ''bert'' (model_name sweep_config))
 \<and> results_path sweep_config = Some ''out''
 \<and> num_layers sweep_config = [1, 2, 3] @ [] \<and> num_layers sweep_config = [1, 2] @ [3]
 \<and> list_all (\<lambda>l. crash_at_3 l = Inr (layer_metrics l)) [1, 2]
 \<and> crash_at_3 3 = Inl ZeroDivisionError
 \<and> completed_table layer_metrics [1, 2, 3] []
      = [(1, layer_metrics 1), (2, layer_metrics 2), (3, layer_metrics 3)]
 \<and> probing sweep_config (\<lambda>l. Inr (layer_metrics l)) (\<lambda>p. True) Map.empty
     = (Returned (Some [(1, layer_metrics 1), (2, layer_metrics 2), (3, layer_metrics 3)]),
        \<lparr> results = [(1, layer_metrics 1), (2, layer_metrics 2), (3, layer_metrics 3)],
          files = [''out/results.json'' \<mapsto>
                     [(''1'', layer_metrics 1), (''2'', layer_metrics 2), (''3'', layer_metrics 3)]] \<rparr>)
 \<and> map fst (json_dump (completed_table layer_metrics [1, 2, 3] [])) = [''1'', ''2'', ''3'']
 \<and> probing sweep_config crash_at_3 (\<lambda>p. True) Map.empty
     = (Crashed ZeroDivisionError,
        \<lparr> results = [(1, layer_metrics 1), (2, layer_metrics 2)],
          files = [''out/results.json'' \<mapsto> [(''1'', layer_metrics 1), (''2'', layer_metrics 2)]] \<rparr>)"
proof -
  have h: "task_type sweep_config = ''single_span'' \<or> task_type sweep_config = ''two_span''"
    "prefix ''roberta'' (model_name sweep_config) \<or> prefix ''bert'' (model_name sweep_config)"
    "results_path sweep_config = Some ''out''"
    by (simp_all add: sweep_config_def)
  have n3: "num_layers sweep_config = [1, 2, 3] @ []"
    and n2: "num_layers sweep_config = [1, 2] @ [3]"
    by (simp_all add: sweep_config_def)
  have a3: "\<forall>l\<in>set [1, 2, 3]. (\<lambda>l. Inr (layer_metrics l) :: py_error + metrics) l = Inr (layer_metrics l)"
    by simp
  have a2: "\<forall>l\<in>set [1, 2]. crash_at_3 l = Inr (layer_metrics l)"
    by (simp add: crash_at_3_def)
  have c3: "crash_at_3 3 = Inl ZeroDivisionError" by (simp add: crash_at_3_def)
  have t3: "completed_table layer_metrics [1, 2, 3] []
      = [(1, layer_metrics 1), (2, layer_metrics 2), (3, layer_metrics 3)]"
    and t2: "completed_table layer_metrics [1, 2] [] = [(1, layer_metrics 1), (2, layer_metrics 2)]"
    by (simp_all add: completed_table_def)
  have j3: "json_dump [(1, layer_metrics 1), (2, layer_metrics 2), (3, layer_metrics 3)]
      = [(''1'', layer_metrics 1), (''2'', layer_metrics 2), (''3'', layer_metrics 3)]"
    and j2: "json_dump [(1, layer_metrics 1), (2, layer_metrics 2)]
      = [(''1'', layer_metrics 1), (''2'', layer_metrics 2)]"
    by (simp_all add: json_dump_def str_int_def)
  have ne3: "[1, 2, 3] \<noteq> ([] :: int list)" and ne2: "[1, 2] \<noteq> ([] :: int list)" by simp_all
  note T3 = results_file_rewritten_per_layer
    [where config = sweep_config and p = "''out''" and writable = "\<lambda>p. True"
       and run_layer = "\<lambda>l. Inr (layer_metrics l)" and m = layer_metrics
       and ls = "[1, 2, 3]" and rest = "[]" and disk = Map.empty,
     OF h TrueI n3 ne3 a3]
  note T2 = results_file_rewritten_per_layer
    [where config = sweep_config and p = "''out''" and writable = "\<lambda>p. True"
       and run_layer = crash_at_3 and m = layer_metrics
       and ls = "[1, 2]" and rest = "[3]" and disk = Map.empty,
     OF h TrueI n2 ne2 a2]
  have full: "probing sweep_config (\<lambda>l. Inr (layer_metrics l)) (\<lambda>p. True) Map.empty
     = (Returned (Some [(1, layer_metrics 1), (2, layer_metrics 2), (3, layer_metrics 3)]),
        \<lparr> results = [(1, layer_metrics 1), (2, layer_metrics 2), (3, layer_metrics 3)],
          files = [''out/results.json'' \<mapsto>
                     [(''1'', layer_metrics 1), (''2'', layer_metrics 2), (''3'', layer_metrics 3)]] \<rparr>)"
    using T3 [THEN conjunct2, THEN conjunct2, THEN conjunct2, THEN conjunct2, THEN conjunct2,
              THEN conjunct2, THEN conjunct1]
    by (simp add: t3 j3)
  have keys: "map fst (json_dump (completed_table layer_metrics [1, 2, 3] [])) = [''1'', ''2'', ''3'']"
    using T3 [THEN conjunct2, THEN conjunct2, THEN conjunct2, THEN conjunct2, THEN conjunct2,
              THEN conjunct1]
    by (simp add: str_int_def)
  have crash: "probing sweep_config crash_at_3 (\<lambda>p. True) Map.empty
     = (Crashed ZeroDivisionError,
        \<lparr> results = [(1, layer_metrics 1), (2, layer_metrics 2)],
          files = [''out/results.json'' \<mapsto> [(''1'', layer_metrics 1), (''2'', layer_metrics 2)]] \<rparr>)"
    using T2 [THEN conjunct2, THEN conjunct2, THEN conjunct2, THEN conjunct2, THEN conjunct2,
              THEN conjunct2, THEN conjunct2, rule_format, OF refl c3]
    by (simp add: t2 j2)
  show ?thesis using h(1,2,3) n3 n2 a2 c3 t3 full keys crash by (simp add: list_all_iff)
qed

end
